theory Spec2Isabelle
  imports Complex_Main
begin

section \<open>Bowyer-Watson Delaunay triangulation (src/main.cpp)\<close>

text \<open>
  A shallow embedding of the triangulation engine of \<^verbatim>\<open>src/main.cpp\<close>: the geometry
  primitives, the circumcircle predicate \<^verbatim>\<open>inCircumcircle\<close> and the function
  \<^verbatim>\<open>delaunayTriangulation\<close>.

  Modelling conventions.
  \<^item> The list manipulation of the engine (scan, removal, edge uniqueness, re-triangulation,
    pruning) is modelled over points with \<^typ>\<open>real\<close> coordinates: there a
    \<^verbatim>\<open>double\<close> is a finite number, arithmetic is exact and \<^verbatim>\<open>1e-9\<close> is
    \<open>1 / 10 ^ 9\<close>.
  \<^item> The two numeric kernels, the determinant test of lines 39 to 55 and the super-triangle
    of lines 61 to 82, are modelled a second time in IEEE 754 binary64 arithmetic (type
    \<open>double\<close>, names with the suffix \<open>D\<close>): every operation rounds to nearest, ties to
    even, overflows to an infinity and propagates NaN. Statements about computed numbers are
    made on this second model.
  \<^item> A \<^verbatim>\<open>struct\<close> is a record with the fields of the source, a
    \<^verbatim>\<open>std::vector\<close> is a list, \<^verbatim>\<open>push_back\<close> appends at the end.
  \<^item> Reading \<^verbatim>\<open>points[0]\<close> of an empty vector is undefined behaviour in C++; the
    model returns the failure \<open>OutOfBoundsRead\<close> there.
\<close>

subsection \<open>Geometry primitives\<close>

record Point =
  x :: real
  y :: real

record Edge =
  p1 :: Point
  p2 :: Point

record Triangle =
  a :: Point
  b :: Point
  c :: Point

text \<open>\<^verbatim>\<open>Point::operator==\<close>: exact equality of both coordinates.\<close>

definition Point_eq :: "Point \<Rightarrow> Point \<Rightarrow> bool" where
  "Point_eq p q = (x p = x q \<and> y p = y q)"

text \<open>\<^verbatim>\<open>Edge::operator==\<close>: same endpoints, in either direction.\<close>

definition Edge_eq :: "Edge \<Rightarrow> Edge \<Rightarrow> bool" where
  "Edge_eq e f =
     ((Point_eq (p1 e) (p1 f) \<and> Point_eq (p2 e) (p2 f)) \<or>
      (Point_eq (p1 e) (p2 f) \<and> Point_eq (p2 e) (p1 f)))"

text \<open>Short forms for writing concrete points, edges and triangles.\<close>

abbreviation (input) pt :: "real \<Rightarrow> real \<Rightarrow> Point" where
  "pt u v \<equiv> \<lparr>x = u, y = v\<rparr>"

abbreviation (input) seg :: "Point \<Rightarrow> Point \<Rightarrow> Edge" where
  "seg u v \<equiv> \<lparr>p1 = u, p2 = v\<rparr>"

abbreviation (input) tri :: "Point \<Rightarrow> Point \<Rightarrow> Point \<Rightarrow> Triangle" where
  "tri u v w \<equiv> \<lparr>a = u, b = v, c = w\<rparr>"

subsection \<open>The circumcircle predicate\<close>

text \<open>
  The local variable \<^verbatim>\<open>det\<close> of \<^verbatim>\<open>inCircumcircle\<close> and the test, in exact
  arithmetic. This is the predicate of the list-level model of the engine; the computation
  in binary64, with its roundings, is \<open>circumDetD\<close> and \<open>inCircumcircleD\<close> below.
\<close>

definition circumDet :: "Point \<Rightarrow> Triangle \<Rightarrow> real" where
  "circumDet p t =
     (let ax = x (a t) - x p;
          ay = y (a t) - y p;
          bx = x (b t) - x p;
          by = y (b t) - y p;
          cx = x (c t) - x p;
          cy = y (c t) - y p
      in (ax * ax + ay * ay) * (bx * cy - cx * by) -
         (bx * bx + by * by) * (ax * cy - cx * ay) +
         (cx * cx + cy * cy) * (ax * by - bx * ay))"

definition inCircumcircle :: "Point \<Rightarrow> Triangle \<Rightarrow> bool" where
  "inCircumcircle p t = (circumDet p t > 1 / 10 ^ 9)"

subsection \<open>The triangulation engine\<close>

text \<open>
  Outcomes of a call that are not a triangle list. \<open>OutOfBoundsRead\<close> is the read of
  \<^verbatim>\<open>points[0]\<close> on an empty vector at line 62 (undefined behaviour in C++).
  \<open>InvalidInput\<close> is the error kind that section 7 of the specification names for an
  empty point set; no path of the source produces it.
\<close>

datatype failure = InvalidInput | OutOfBoundsRead

text \<open>The four running bounds of lines 62 to 71.\<close>

record Bounds =
  minX :: real
  minY :: real
  maxX :: real
  maxY :: real

fun boundsLoop :: "Point list \<Rightarrow> Bounds \<Rightarrow> Bounds" where
  "boundsLoop [] bb = bb"
| "boundsLoop (p # ps) bb =
     boundsLoop ps
       \<lparr>minX = min (minX bb) (x p), minY = min (minY bb) (y p),
        maxX = max (maxX bb) (x p), maxY = max (maxY bb) (y p)\<rparr>"

definition computeBounds :: "Point list \<Rightarrow> failure + Bounds" where
  "computeBounds points =
     (case points of
        [] \<Rightarrow> Inl OutOfBoundsRead
      | p0 # _ \<Rightarrow>
          Inr (boundsLoop points \<lparr>minX = x p0, minY = y p0, maxX = x p0, maxY = y p0\<rparr>))"

definition deltaMax :: "Bounds \<Rightarrow> real" where
  "deltaMax bb = max (maxX bb - minX bb) (maxY bb - minY bb)"

definition midX :: "Bounds \<Rightarrow> real" where
  "midX bb = (minX bb + maxX bb) / 2"

definition midY :: "Bounds \<Rightarrow> real" where
  "midY bb = (minY bb + maxY bb) / 2"

text \<open>
  Lines 79 to 82: the super-triangle of a bounding box, in exact arithmetic; the
  computation in binary64 is \<open>superOfD\<close> below.
\<close>

definition superOf :: "Bounds \<Rightarrow> Triangle" where
  "superOf bb =
     \<lparr>a = \<lparr>x = midX bb - 20 * deltaMax bb, y = midY bb - deltaMax bb\<rparr>,
      b = \<lparr>x = midX bb + 20 * deltaMax bb, y = midY bb - deltaMax bb\<rparr>,
      c = \<lparr>x = midX bb, y = midY bb + 20 * deltaMax bb\<rparr>\<rparr>"

definition superTriangle :: "Point list \<Rightarrow> failure + Triangle" where
  "superTriangle points =
     (case computeBounds points of Inl e \<Rightarrow> Inl e | Inr bb \<Rightarrow> Inr (superOf bb))"

text \<open>
  Lines 90 to 97: the scan that collects the bad triangles and the three edges of each,
  in the order of the triangle list.
\<close>

fun scanTriangles ::
  "Point \<Rightarrow> Triangle list \<Rightarrow> Triangle list \<times> Edge list \<Rightarrow> Triangle list \<times> Edge list" where
  "scanTriangles point [] (badTriangles, polygon) = (badTriangles, polygon)"
| "scanTriangles point (t # ts) (badTriangles, polygon) =
     (if inCircumcircle point t
      then scanTriangles point ts
             (badTriangles @ [t],
              polygon @ [\<lparr>p1 = a t, p2 = b t\<rparr>, \<lparr>p1 = b t, p2 = c t\<rparr>, \<lparr>p1 = c t, p2 = a t\<rparr>])
      else scanTriangles point ts (badTriangles, polygon))"

text \<open>Lines 101 to 108: the predicate handed to \<^verbatim>\<open>std::remove_if\<close>.\<close>

fun matchesBad :: "Triangle list \<Rightarrow> Triangle \<Rightarrow> bool" where
  "matchesBad [] t = False"
| "matchesBad (bad # bads) t =
     (if Point_eq (a t) (a bad) \<and> Point_eq (b t) (b bad) \<and> Point_eq (c t) (c bad)
      then True
      else matchesBad bads t)"

text \<open>
  \<^verbatim>\<open>v.erase(std::remove_if(v.begin(), v.end(), pred), v.end())\<close>: the elements that do
  not satisfy the predicate, in their order.
\<close>

definition erase_remove_if :: "('a \<Rightarrow> bool) \<Rightarrow> 'a list \<Rightarrow> 'a list" where
  "erase_remove_if pred v = filter (\<lambda>t. \<not> pred t) v"

text \<open>
  Lines 112 to 123. The inner loop over \<open>j\<close>, with its \<^verbatim>\<open>break\<close>, and the outer loop
  over \<open>i\<close>. Both indices stay below the size of the list.
\<close>

function isUniqueFrom :: "Edge list \<Rightarrow> nat \<Rightarrow> nat \<Rightarrow> bool" where
  "isUniqueFrom polygon i j =
     (if j < length polygon
      then (if i \<noteq> j \<and> Edge_eq (polygon ! i) (polygon ! j)
            then False
            else isUniqueFrom polygon i (Suc j))
      else True)"
  by pat_completeness auto
termination
  by (relation "measure (\<lambda>(polygon, i, j). length polygon - j)") auto

function uniqueEdgesFrom :: "Edge list \<Rightarrow> nat \<Rightarrow> Edge list \<Rightarrow> Edge list" where
  "uniqueEdgesFrom polygon i uniqueEdges =
     (if i < length polygon
      then uniqueEdgesFrom polygon (Suc i)
             (if isUniqueFrom polygon i 0 then uniqueEdges @ [polygon ! i] else uniqueEdges)
      else uniqueEdges)"
  by pat_completeness auto
termination
  by (relation "measure (\<lambda>(polygon, i, uniqueEdges). length polygon - i)") auto

text \<open>Both loops are unfolded by hand, one iteration at a time.\<close>

declare isUniqueFrom.simps [simp del]
declare uniqueEdgesFrom.simps [simp del]

definition findUniqueEdges :: "Edge list \<Rightarrow> Edge list" where
  "findUniqueEdges polygon = uniqueEdgesFrom polygon 0 []"

text \<open>Lines 126 to 128: one new triangle per unique edge, appended in order.\<close>

fun addTriangles :: "Point \<Rightarrow> Edge list \<Rightarrow> Triangle list \<Rightarrow> Triangle list" where
  "addTriangles point [] triangles = triangles"
| "addTriangles point (edge # edges) triangles =
     addTriangles point edges (triangles @ [\<lparr>a = p1 edge, b = p2 edge, c = point\<rparr>])"

text \<open>The body of the insertion loop, lines 86 to 128.\<close>

definition insertPoint :: "Point \<Rightarrow> Triangle list \<Rightarrow> Triangle list" where
  "insertPoint point triangles =
     (case scanTriangles point triangles ([], []) of
        (badTriangles, polygon) \<Rightarrow>
          addTriangles point (findUniqueEdges polygon)
            (erase_remove_if (matchesBad badTriangles) triangles))"

text \<open>The insertion loop, lines 85 to 129.\<close>

fun insertAll :: "Point list \<Rightarrow> Triangle list \<Rightarrow> Triangle list" where
  "insertAll [] triangles = triangles"
| "insertAll (point # points) triangles = insertAll points (insertPoint point triangles)"

text \<open>Lines 133 to 137: the predicate of the final pruning.\<close>

definition touchesSuper :: "Triangle \<Rightarrow> Triangle \<Rightarrow> bool" where
  "touchesSuper superTri t =
     (Point_eq (a t) (a superTri) \<or> Point_eq (b t) (a superTri) \<or> Point_eq (c t) (a superTri) \<or>
      Point_eq (a t) (b superTri) \<or> Point_eq (b t) (b superTri) \<or> Point_eq (c t) (b superTri) \<or>
      Point_eq (a t) (c superTri) \<or> Point_eq (b t) (c superTri) \<or> Point_eq (c t) (c superTri))"

definition delaunayTriangulation :: "Point list \<Rightarrow> failure + Triangle list" where
  "delaunayTriangulation points =
     (case superTriangle points of
        Inl e \<Rightarrow> Inl e
      | Inr superTri \<Rightarrow>
          Inr (erase_remove_if (touchesSuper superTri) (insertAll points [superTri])))"

text \<open>The three edges that line 93 to 95 push for one bad triangle.\<close>

definition edgesOf :: "Triangle \<Rightarrow> Edge list" where
  "edgesOf t = [\<lparr>p1 = a t, p2 = b t\<rparr>, \<lparr>p1 = b t, p2 = c t\<rparr>, \<lparr>p1 = c t, p2 = a t\<rparr>]"

subsection \<open>The call with its by-reference argument\<close>

text \<open>
  The call seen from the caller. The parameter is a reference to the caller's vector and is
  not \<^verbatim>\<open>const\<close>, so the body could write through it. The frame holds the
  referenced vector and the local \<^verbatim>\<open>triangles\<close>; the range-for of line 85 walks
  the referenced vector by position and reads each element through a
  \<^verbatim>\<open>const auto&\<close>. No statement of the body assigns to the vector or to an element
  of it. The result carries the contents of the vector after the call.
\<close>

record Frame =
  pointsRef :: "Point list"
  trianglesVec :: "Triangle list"

function insertLoop :: "nat \<Rightarrow> Frame \<Rightarrow> Frame" where
  "insertLoop i fr =
     (if i < length (pointsRef fr)
      then insertLoop (Suc i)
             (fr\<lparr>trianglesVec := insertPoint (pointsRef fr ! i) (trianglesVec fr)\<rparr>)
      else fr)"
  by pat_completeness auto
termination
  by (relation "measure (\<lambda>(i, fr). length (pointsRef fr) - i)") auto

declare insertLoop.simps [simp del]

definition delaunayTriangulation_call :: "Point list \<Rightarrow> failure + Point list \<times> Triangle list" where
  "delaunayTriangulation_call points =
     (case superTriangle points of
        Inl e \<Rightarrow> Inl e
      | Inr superTri \<Rightarrow>
          (let fr = insertLoop 0 \<lparr>pointsRef = points, trianglesVec = [superTri]\<rparr>
           in Inr (pointsRef fr, erase_remove_if (touchesSuper superTri) (trianglesVec fr))))"

subsection \<open>IEEE 754 binary64 arithmetic\<close>

text \<open>
  A \<^verbatim>\<open>double\<close> is a finite value, an infinity or NaN. A finite value carries the real
  number it denotes; the two zeros are one value, which no operation of this program tells
  apart (it has no division by a variable). Each arithmetic operation computes the exact
  result and rounds it once; no operation is fused with another and none is carried out in
  a wider format.
\<close>

datatype double = Finite real | PInf | MInf | NaN

definition pow2 :: "int \<Rightarrow> real" where
  "pow2 q = (if 0 \<le> q then 2 ^ nat q else 1 / 2 ^ nat (- q))"

text \<open>
  The binary exponent of a positive number, that is the \<open>e\<close> with \<open>2\<^sup>e \<le> v < 2\<^sup>e\<^sup>+\<^sup>1\<close>,
  cut off at \<open>-1022\<close> (below it the numbers are subnormal) and at \<open>1024\<close> (overflow). It is
  found by halving or doubling.
\<close>

function expo_down :: "real \<Rightarrow> int \<Rightarrow> int" where
  "expo_down s e = (if s < 2 \<or> 1024 \<le> e then e else expo_down (s / 2) (e + 1))"
  by pat_completeness auto
termination
  by (relation "measure (\<lambda>(s, e). nat (1024 - e))") auto

function expo_up :: "real \<Rightarrow> int \<Rightarrow> int" where
  "expo_up s e = (if 1 \<le> s \<or> e \<le> - 1022 then e else expo_up (2 * s) (e - 1))"
  by pat_completeness auto
termination
  by (relation "measure (\<lambda>(s, e). nat (e + 1022))") auto

declare expo_down.simps [simp del]
declare expo_up.simps [simp del]

definition expo :: "real \<Rightarrow> int" where
  "expo v = (if 1 \<le> v then expo_down v 0 else expo_up v 0)"

text \<open>The nearest integer, a tie going to the even one.\<close>

definition roundHalfEven :: "real \<Rightarrow> int" where
  "roundHalfEven s =
     (let m = \<lfloor>s\<rfloor>; f = s - of_int m
      in if f < 1 / 2 then m
         else if 1 / 2 < f then m + 1
         else if even m then m else m + 1)"

text \<open>
  Rounding of a positive number to 53 significant bits: the spacing is \<open>2\<^sup>e\<^sup>-\<^sup>5\<^sup>2\<close>, never
  below \<open>2\<^sup>-\<^sup>1\<^sup>0\<^sup>7\<^sup>4\<close>; a result of \<open>2\<^sup>1\<^sup>0\<^sup>2\<^sup>4\<close> or more is an infinity.
\<close>

definition round_pos :: "real \<Rightarrow> double" where
  "round_pos v =
     (let e = expo v
      in if 1024 \<le> e then PInf
         else (let q = e - 52; m = roundHalfEven (v / pow2 q)
               in if m = 2 ^ 53 \<and> e = 1023 then PInf else Finite (of_int m * pow2 q)))"

fun dneg :: "double \<Rightarrow> double" where
  "dneg (Finite v) = Finite (- v)"
| "dneg PInf = MInf"
| "dneg MInf = PInf"
| "dneg NaN = NaN"

text \<open>
  Rounding to nearest, ties to even. It is also how the compiler reads a decimal literal:
  the literal \<^verbatim>\<open>1e-9\<close> is \<open>rnd (1 / 10 ^ 9)\<close>.
\<close>

definition rnd :: "real \<Rightarrow> double" where
  "rnd v = (if v = 0 then Finite 0 else if 0 < v then round_pos v else dneg (round_pos (- v)))"

fun dadd :: "double \<Rightarrow> double \<Rightarrow> double" where
  "dadd NaN _ = NaN"
| "dadd _ NaN = NaN"
| "dadd PInf MInf = NaN"
| "dadd MInf PInf = NaN"
| "dadd PInf _ = PInf"
| "dadd _ PInf = PInf"
| "dadd MInf _ = MInf"
| "dadd _ MInf = MInf"
| "dadd (Finite u) (Finite v) = rnd (u + v)"

definition dsub :: "double \<Rightarrow> double \<Rightarrow> double" where
  "dsub u v = dadd u (dneg v)"

definition inf_of_sign :: "bool \<Rightarrow> double" where
  "inf_of_sign positive = (if positive then PInf else MInf)"

fun dmul :: "double \<Rightarrow> double \<Rightarrow> double" where
  "dmul NaN _ = NaN"
| "dmul _ NaN = NaN"
| "dmul (Finite u) (Finite v) = rnd (u * v)"
| "dmul (Finite u) PInf = (if u = 0 then NaN else inf_of_sign (0 < u))"
| "dmul (Finite u) MInf = (if u = 0 then NaN else inf_of_sign (u < 0))"
| "dmul PInf (Finite v) = (if v = 0 then NaN else inf_of_sign (0 < v))"
| "dmul MInf (Finite v) = (if v = 0 then NaN else inf_of_sign (v < 0))"
| "dmul PInf PInf = PInf"
| "dmul PInf MInf = MInf"
| "dmul MInf PInf = MInf"
| "dmul MInf MInf = PInf"


text \<open>The comparisons: every comparison with NaN is false.\<close>

fun dlt :: "double \<Rightarrow> double \<Rightarrow> bool" where
  "dlt NaN _ = False"
| "dlt _ NaN = False"
| "dlt (Finite u) (Finite v) = (u < v)"
| "dlt (Finite u) PInf = True"
| "dlt (Finite u) MInf = False"
| "dlt PInf _ = False"
| "dlt MInf MInf = False"
| "dlt MInf _ = True"

definition dgt :: "double \<Rightarrow> double \<Rightarrow> bool" where
  "dgt u v = dlt v u"



subsection \<open>The numeric kernels in binary64\<close>

record PointD =
  xD :: double
  yD :: double

record TriangleD =
  aD :: PointD
  bD :: PointD
  cD :: PointD

text \<open>
  Short forms: a point given by two decimal literals, a point and a triangle with finite
  coordinates given by their values, and a triangle given by its corners.
\<close>

abbreviation (input) ptD :: "real \<Rightarrow> real \<Rightarrow> PointD" where
  "ptD u v \<equiv> \<lparr>xD = rnd u, yD = rnd v\<rparr>"

abbreviation (input) triD :: "PointD \<Rightarrow> PointD \<Rightarrow> PointD \<Rightarrow> TriangleD" where
  "triD u v w \<equiv> \<lparr>aD = u, bD = v, cD = w\<rparr>"

definition PointD_of :: "Point \<Rightarrow> PointD" where
  "PointD_of p = \<lparr>xD = Finite (x p), yD = Finite (y p)\<rparr>"

definition TriangleD_of :: "Triangle \<Rightarrow> TriangleD" where
  "TriangleD_of t = \<lparr>aD = PointD_of (a t), bD = PointD_of (b t), cD = PointD_of (c t)\<rparr>"

text \<open>Lines 40 to 49: the local variable \<^verbatim>\<open>det\<close>, operation by operation.\<close>

definition circumDetD :: "PointD \<Rightarrow> TriangleD \<Rightarrow> double" where
  "circumDetD p t =
     (let ax = dsub (xD (aD t)) (xD p);
          ay = dsub (yD (aD t)) (yD p);
          bx = dsub (xD (bD t)) (xD p);
          by = dsub (yD (bD t)) (yD p);
          cx = dsub (xD (cD t)) (xD p);
          cy = dsub (yD (cD t)) (yD p)
      in dadd
           (dsub (dmul (dadd (dmul ax ax) (dmul ay ay)) (dsub (dmul bx cy) (dmul cx by)))
                 (dmul (dadd (dmul bx bx) (dmul by by)) (dsub (dmul ax cy) (dmul cx ay))))
           (dmul (dadd (dmul cx cx) (dmul cy cy)) (dsub (dmul ax by) (dmul bx ay))))"

text \<open>Line 54: the comparison with the literal \<^verbatim>\<open>1e-9\<close>.\<close>

definition inCircumcircleD :: "PointD \<Rightarrow> TriangleD \<Rightarrow> bool" where
  "inCircumcircleD p t = dgt (circumDetD p t) (rnd (1 / 10 ^ 9))"

text \<open>
  The determinant in the words of the specification, section 4.1: the vertices are
  translated by the query point, \<open>|A|\<^sup>2\<close> is the squared length and \<open>A \<times> B\<close> the 2D
  cross product, all computed in binary64.
\<close>

definition translateD :: "PointD \<Rightarrow> PointD \<Rightarrow> PointD" where
  "translateD p v = \<lparr>xD = dsub (xD v) (xD p), yD = dsub (yD v) (yD p)\<rparr>"

definition norm2D :: "PointD \<Rightarrow> double" where
  "norm2D v = dadd (dmul (xD v) (xD v)) (dmul (yD v) (yD v))"

definition cross2D :: "PointD \<Rightarrow> PointD \<Rightarrow> double" where
  "cross2D u v = dsub (dmul (xD u) (yD v)) (dmul (xD v) (yD u))"

definition spec_detD :: "PointD \<Rightarrow> TriangleD \<Rightarrow> double" where
  "spec_detD p t =
     (let A = translateD p (aD t); B = translateD p (bD t); C = translateD p (cD t)
      in dadd (dsub (dmul (norm2D A) (cross2D B C)) (dmul (norm2D B) (cross2D A C)))
              (dmul (norm2D C) (cross2D A B)))"










text \<open>
  The real bounding box on which lines 72 to 81 compute without rounding: each
  intermediate result is a double as it stands.
\<close>

definition exact :: "real \<Rightarrow> bool" where
  "exact v = (rnd v = Finite v)"

definition no_rounding :: "Bounds \<Rightarrow> bool" where
  "no_rounding bb =
     (exact (maxX bb - minX bb) \<and> exact (maxY bb - minY bb) \<and>
      exact (minX bb + maxX bb) \<and> exact (midX bb) \<and>
      exact (minY bb + maxY bb) \<and> exact (midY bb) \<and>
      exact (20 * deltaMax bb) \<and>
      exact (midX bb - 20 * deltaMax bb) \<and> exact (midX bb + 20 * deltaMax bb) \<and>
      exact (midY bb - deltaMax bb) \<and> exact (midY bb + 20 * deltaMax bb))"

text \<open>
  Numbers \<open>n / 2\<^sup>j\<close> with \<open>|n| \<le> B\<close>, and the points with both coordinates a multiple of
  one half of magnitude at most 1024.
\<close>

definition grid :: "nat \<Rightarrow> int \<Rightarrow> real \<Rightarrow> bool" where
  "grid j B v = (\<exists>n. v = of_int n / 2 ^ j \<and> \<bar>n\<bar> \<le> B)"

definition on_half_grid :: "Point \<Rightarrow> bool" where
  "on_half_grid q = (grid 1 (2 ^ 11) (x q) \<and> grid 1 (2 ^ 11) (y q))"

subsection \<open>Point-in-triangle tests used to state the enclosure property\<close>




section \<open>Auxiliary facts about the loops\<close>

lemma Point_eq_iff: "Point_eq p q = (p = q)"
  by (cases p, cases q) (simp add: Point_eq_def)

lemma matchesBad_iff:
  "matchesBad bads t =
     (\<exists>bad\<in>set bads. Point_eq (a t) (a bad) \<and> Point_eq (b t) (b bad) \<and> Point_eq (c t) (c bad))"
  by (induction bads) auto

lemma matchesBad_mem: "matchesBad bads t = (t \<in> set bads)"
proof -
  have "(Point_eq (a t) (a u) \<and> Point_eq (b t) (b u) \<and> Point_eq (c t) (c u)) = (t = u)" for u
    by (cases t, cases u) (auto simp: Point_eq_iff)
  then show ?thesis by (simp add: matchesBad_iff)
qed

lemma scanTriangles_eq:
  "scanTriangles point ts (bads, poly) =
     (bads @ filter (inCircumcircle point) ts,
      poly @ concat (map edgesOf (filter (inCircumcircle point) ts)))"
  by (induction ts arbitrary: bads poly) (simp_all add: edgesOf_def)

lemma addTriangles_eq:
  "addTriangles point es ts = ts @ map (\<lambda>e. \<lparr>a = p1 e, b = p2 e, c = point\<rparr>) es"
  by (induction es arbitrary: ts) simp_all

lemma isUniqueFrom_iff:
  "isUniqueFrom polygon i j =
     (\<forall>k. j \<le> k \<and> k < length polygon \<and> k \<noteq> i \<longrightarrow> \<not> Edge_eq (polygon ! i) (polygon ! k))"
proof (induction polygon i j rule: isUniqueFrom.induct)
  case (1 polygon i j)
  show ?case
  proof (cases "j < length polygon")
    case False
    then show ?thesis by (subst isUniqueFrom.simps) auto
  next
    case True
    show ?thesis
    proof (cases "i \<noteq> j \<and> Edge_eq (polygon ! i) (polygon ! j)")
      case hit: True
      with True show ?thesis by (subst isUniqueFrom.simps) auto
    next
      case miss: False
      have "isUniqueFrom polygon i j = isUniqueFrom polygon i (Suc j)"
        using True miss by (subst isUniqueFrom.simps) auto
      also have "\<dots> = (\<forall>k. Suc j \<le> k \<and> k < length polygon \<and> k \<noteq> i \<longrightarrow>
                        \<not> Edge_eq (polygon ! i) (polygon ! k))"
        using "1.IH" True miss by simp
      also have "\<dots> = (\<forall>k. j \<le> k \<and> k < length polygon \<and> k \<noteq> i \<longrightarrow>
                        \<not> Edge_eq (polygon ! i) (polygon ! k))"
        using miss by (metis Suc_leD Suc_leI le_neq_implies_less)
      finally show ?thesis .
    qed
  qed
qed

lemma uniqueEdgesFrom_eq:
  "uniqueEdgesFrom polygon i acc =
     acc @ map (\<lambda>k. polygon ! k) (filter (\<lambda>k. isUniqueFrom polygon k 0) [i..<length polygon])"
proof (induction polygon i acc rule: uniqueEdgesFrom.induct)
  case (1 polygon i acc)
  show ?case
  proof (cases "i < length polygon")
    case False
    then show ?thesis by (subst uniqueEdgesFrom.simps) simp
  next
    case True
    then have up: "[i..<length polygon] = i # [Suc i..<length polygon]"
      by (simp add: upt_conv_Cons)
    show ?thesis
      using True "1.IH" by (subst uniqueEdgesFrom.simps) (simp add: up)
  qed
qed

lemma Edge_eq_refl: "Edge_eq e e"
  by (simp add: Edge_eq_def Point_eq_def)

lemma count_one_iff:
  assumes "i < length xs" and "P (xs ! i)"
  shows "(length (filter P xs) = 1) = (\<forall>k. k < length xs \<and> k \<noteq> i \<longrightarrow> \<not> P (xs ! k))"
proof -
  define S where "S = {k. k < length xs \<and> P (xs ! k)}"
  have len: "length (filter P xs) = card S"
    unfolding S_def by (rule length_filter_conv_card)
  have mem: "i \<in> S"
    using assms by (simp add: S_def)
  have "(card S = 1) = (S = {i})"
  proof
    assume "card S = 1"
    then obtain z where "S = {z}" by (auto simp: card_1_singleton_iff)
    with mem show "S = {i}" by auto
  next
    assume "S = {i}"
    then show "card S = 1" by simp
  qed
  also have "\<dots> = (\<forall>k. k < length xs \<and> k \<noteq> i \<longrightarrow> \<not> P (xs ! k))"
    using mem by (auto simp: S_def)
  finally show ?thesis by (simp add: len)
qed

lemma findUniqueEdges_eq:
  "findUniqueEdges polygon = filter (\<lambda>e. length (filter (Edge_eq e) polygon) = 1) polygon"
proof -
  have "isUniqueFrom polygon k 0 = (length (filter (Edge_eq (polygon ! k)) polygon) = 1)"
    if "k < length polygon" for k
    using count_one_iff [OF that, of "Edge_eq (polygon ! k)"]
    by (simp add: isUniqueFrom_iff Edge_eq_refl)
  then have "filter (\<lambda>k. isUniqueFrom polygon k 0) [0..<length polygon] =
             filter (\<lambda>k. length (filter (Edge_eq (polygon ! k)) polygon) = 1) [0..<length polygon]"
    by (intro filter_cong) auto
  then have "findUniqueEdges polygon =
      map (\<lambda>k. polygon ! k)
        (filter ((\<lambda>e. length (filter (Edge_eq e) polygon) = 1) \<circ> (\<lambda>k. polygon ! k)) [0..<length polygon])"
    by (simp add: findUniqueEdges_def uniqueEdgesFrom_eq comp_def)
  also have "\<dots> = filter (\<lambda>e. length (filter (Edge_eq e) polygon) = 1)
                     (map (\<lambda>k. polygon ! k) [0..<length polygon])"
    by (simp only: filter_map)
  also have "map (\<lambda>k. polygon ! k) [0..<length polygon] = polygon"
    by (rule map_nth)
  finally show ?thesis .
qed

lemma Edge_eq_iff: "Edge_eq e f = ({p1 e, p2 e} = {p1 f, p2 f})"
  by (auto simp: Edge_eq_def Point_eq_iff doubleton_eq_iff)

lemma insertPoint_eq:
  "insertPoint point triangles =
     filter (\<lambda>t. \<not> inCircumcircle point t) triangles @
     map (\<lambda>e. \<lparr>a = p1 e, b = p2 e, c = point\<rparr>)
       (findUniqueEdges (concat (map edgesOf (filter (inCircumcircle point) triangles))))"
  by (auto simp: insertPoint_def scanTriangles_eq addTriangles_eq erase_remove_if_def
      matchesBad_mem intro: filter_cong)

lemma insertPoint_parts:
  "scanTriangles point triangles ([], []) = (badTriangles, polygon) \<Longrightarrow>
   insertPoint point triangles =
     erase_remove_if (matchesBad badTriangles) triangles @
     map (\<lambda>e. tri (p1 e) (p2 e) point) (findUniqueEdges polygon)"
  by (simp add: insertPoint_def addTriangles_eq)

lemma erase_matchesBad:
  "erase_remove_if (matchesBad badTriangles) triangles =
     filter (\<lambda>t. \<not> (\<exists>bad\<in>set badTriangles.
        Point_eq (a t) (a bad) \<and> Point_eq (b t) (b bad) \<and> Point_eq (c t) (c bad))) triangles"
  by (simp add: erase_remove_if_def matchesBad_iff)



text \<open>The run of the engine on the three points of scenario A, evaluated in full.\<close>

lemma delaunay_three_points:
  "delaunayTriangulation [pt 0 0, pt 1 0, pt 0 1] = Inr [tri (pt 0 0) (pt 1 0) (pt 0 1)]"
  by code_simp

text \<open>Where the vertices of the triangles come from.\<close>

lemma findUniqueEdges_subset: "set (findUniqueEdges polygon) \<subseteq> set polygon"
  by (simp add: findUniqueEdges_eq)

lemma edgesOf_ends:
  "e \<in> set (edgesOf t) \<Longrightarrow> p1 e \<in> {a t, b t, c t} \<and> p2 e \<in> {a t, b t, c t}"
  by (auto simp: edgesOf_def)

lemma insertPoint_vertices:
  assumes inv: "\<forall>t\<in>set triangles. a t \<in> V \<and> b t \<in> V \<and> c t \<in> V"
    and pt: "point \<in> V"
    and mem: "u \<in> set (insertPoint point triangles)"
  shows "a u \<in> V \<and> b u \<in> V \<and> c u \<in> V"
proof -
  let ?bad = "filter (inCircumcircle point) triangles"
  let ?poly = "concat (map edgesOf ?bad)"
  from mem consider (old) "u \<in> set triangles"
    | (new) e where "e \<in> set (findUniqueEdges ?poly)" "u = tri (p1 e) (p2 e) point"
    by (auto simp: insertPoint_eq)
  then show ?thesis
  proof cases
    case old
    with inv show ?thesis by blast
  next
    case new
    then have "e \<in> set ?poly"
      using findUniqueEdges_subset by blast
    then obtain t where t: "t \<in> set triangles" "e \<in> set (edgesOf t)"
      by auto
    from edgesOf_ends [OF t(2)] inv t(1) have "p1 e \<in> V \<and> p2 e \<in> V"
      by auto
    with new(2) pt show ?thesis by simp
  qed
qed

lemma insertAll_vertices:
  "\<forall>t\<in>set triangles. a t \<in> V \<and> b t \<in> V \<and> c t \<in> V \<Longrightarrow> set ps \<subseteq> V \<Longrightarrow>
   \<forall>t\<in>set (insertAll ps triangles). a t \<in> V \<and> b t \<in> V \<and> c t \<in> V"
proof (induction ps arbitrary: triangles)
  case Nil
  then show ?case by simp
next
  case (Cons q ps)
  have "\<forall>t\<in>set (insertPoint q triangles). a t \<in> V \<and> b t \<in> V \<and> c t \<in> V"
    using insertPoint_vertices [of triangles V q] Cons.prems by auto
  with Cons.IH [of "insertPoint q triangles"] Cons.prems(2) show ?case
    by simp
qed

lemma delaunay_Inr:
  "delaunayTriangulation points = Inr ts \<Longrightarrow>
   \<exists>s. superTriangle points = Inr s \<and>
       ts = erase_remove_if (touchesSuper s) (insertAll points [s])"
  by (auto simp: delaunayTriangulation_def split: sum.splits)










text \<open>The frame-passing loop against the pure one.\<close>

lemma insertLoop_eq:
  "insertLoop i fr =
     fr\<lparr>trianglesVec := insertAll (drop i (pointsRef fr)) (trianglesVec fr)\<rparr>"
proof (induction i fr rule: insertLoop.induct)
  case (1 i fr)
  show ?case
  proof (cases "i < length (pointsRef fr)")
    case True
    then have d: "drop i (pointsRef fr) = pointsRef fr ! i # drop (Suc i) (pointsRef fr)"
      by (simp add: Cons_nth_drop_Suc)
    show ?thesis
      using True "1.IH" by (subst insertLoop.simps) (simp add: d)
  next
    case False
    then show ?thesis by (subst insertLoop.simps) simp
  qed
qed

lemma delaunay_call_eq:
  "delaunayTriangulation_call points =
     (case delaunayTriangulation points of Inl e \<Rightarrow> Inl e | Inr ts \<Rightarrow> Inr (points, ts))"
  by (simp add: delaunayTriangulation_call_def delaunayTriangulation_def insertLoop_eq
      split: sum.splits)

lemma superTriangle_total: "points \<noteq> [] \<Longrightarrow> \<exists>s. superTriangle points = Inr s"
  by (cases points) (simp_all add: superTriangle_def computeBounds_def)

lemma call_three_points:
  "delaunayTriangulation_call [pt 0 0, pt 1 0, pt 0 1] =
     Inr ([pt 0 0, pt 1 0, pt 0 1], [tri (pt 0 0) (pt 1 0) (pt 0 1)])"
  by code_simp

section \<open>Auxiliary facts about binary64\<close>

text \<open>
  Rules that evaluate a rounding on a numeral: the exponent search is unfolded one step at
  a time.
\<close>

lemma expo_down_stop: "s < 2 \<or> 1024 \<le> e \<Longrightarrow> expo_down s e = e"
  by (subst expo_down.simps) simp

lemma expo_down_step:
  "\<not> (s < 2 \<or> 1024 \<le> e) \<Longrightarrow> expo_down s e = expo_down (s / 2) (e + 1)"
  by (subst expo_down.simps) simp

lemma expo_up_stop: "1 \<le> s \<or> e \<le> - 1022 \<Longrightarrow> expo_up s e = e"
  by (subst expo_up.simps) simp

lemma expo_up_step:
  "\<not> (1 \<le> s \<or> e \<le> - 1022) \<Longrightarrow> expo_up s e = expo_up (2 * s) (e - 1)"
  by (subst expo_up.simps) simp

lemmas rnd_eval = rnd_def round_pos_def expo_def roundHalfEven_def pow2_def Let_def
  expo_down_stop expo_down_step expo_up_stop expo_up_step

lemma literal_1e_9: "rnd (1 / 10 ^ 9) = Finite (4835703278458517 / 2 ^ 82)"
  by (simp add: rnd_eval)

lemma dneg_dneg: "dneg (dneg u) = u"
  by (cases u) simp_all

lemma rnd_minus: "rnd (- v) = dneg (rnd v)"
  by (simp add: rnd_def dneg_dneg)


lemma dmul_commute: "dmul u v = dmul v u"
  by (cases u; cases v) (simp_all add: mult.commute)





lemma dgt_dneg_exclusive:
  "dgt u (Finite e) \<Longrightarrow> 0 \<le> e \<Longrightarrow> \<not> dgt (dneg u) (Finite e)"
  by (cases u) (simp_all add: dgt_def)









text \<open>
  A query point that is the fourth corner of a rectangle, so that the determinant is zero
  in exact arithmetic (the decimal coordinates are read as their nearest doubles): the
  computed determinant is \<open>23 / 2\<^sup>3\<^sup>4\<close>, about \<open>1.34e-9\<close>, and the test succeeds, while
  the test in exact arithmetic on the same doubles fails.
\<close>

lemma det_rounding_example:
  "circumDetD (ptD 0 (661 / 10)) (triD (ptD 0 0) (ptD (162 / 10) 0) (ptD (162 / 10) (661 / 10))) =
     Finite (23 / 2 ^ 34) \<and>
   inCircumcircleD (ptD 0 (661 / 10)) (triD (ptD 0 0) (ptD (162 / 10) 0) (ptD (162 / 10) (661 / 10))) \<and>
   rnd (661 / 10) = Finite (2325686995071795 / 2 ^ 45) \<and>
   rnd (162 / 10) = Finite (4559894622712627 / 2 ^ 48) \<and>
   \<not> inCircumcircle (pt 0 (2325686995071795 / 2 ^ 45))
       (tri (pt 0 0) (pt (4559894622712627 / 2 ^ 48) 0)
          (pt (4559894622712627 / 2 ^ 48) (2325686995071795 / 2 ^ 45)))"
proof (intro conjI)
  show d: "circumDetD (ptD 0 (661 / 10))
      (triD (ptD 0 0) (ptD (162 / 10) 0) (ptD (162 / 10) (661 / 10))) = Finite (23 / 2 ^ 34)"
    by (simp add: circumDetD_def dsub_def rnd_eval)
  show "inCircumcircleD (ptD 0 (661 / 10))
      (triD (ptD 0 0) (ptD (162 / 10) 0) (ptD (162 / 10) (661 / 10)))"
    unfolding inCircumcircleD_def d literal_1e_9 by (simp add: dgt_def)
  show "rnd (661 / 10) = Finite (2325686995071795 / 2 ^ 45)"
    by (simp add: rnd_eval)
  show "rnd (162 / 10) = Finite (4559894622712627 / 2 ^ 48)"
    by (simp add: rnd_eval)
  show "\<not> inCircumcircle (pt 0 (2325686995071795 / 2 ^ 45))
       (tri (pt 0 0) (pt (4559894622712627 / 2 ^ 48) 0)
          (pt (4559894622712627 / 2 ^ 48) (2325686995071795 / 2 ^ 45)))"
    by (simp add: inCircumcircle_def circumDet_def)
qed

text \<open>
  The rounding is the identity on every number \<open>n * 2\<^sup>k\<close> with \<open>|n| < 2\<^sup>5\<^sup>3\<close> and
  \<open>-1074 \<le> k \<le> 971\<close>, that is on every finite double.
\<close>

lemma pow2_powi: "pow2 q = 2 powi q"
  by (simp add: pow2_def power_int_def inverse_eq_divide power_one_over)

lemma pow2_pos: "0 < pow2 q"
  by (simp add: pow2_powi)

lemma pow2_Suc: "pow2 (q + 1) = 2 * pow2 q"
  by (simp add: pow2_powi power_int_add)

lemma pow2_pred: "2 * pow2 (q - 1) = pow2 q"
  using pow2_Suc [of "q - 1"] by simp

lemma pow2_add: "pow2 (q + r) = pow2 q * pow2 r"
  by (simp add: pow2_powi power_int_add)

lemma pow2_mono: "q \<le> r \<Longrightarrow> pow2 q \<le> pow2 r"
  by (simp add: pow2_powi power_int_increasing)

lemma pow2_0: "pow2 0 = 1"
  by (simp add: pow2_def)

lemma pow2_53: "pow2 53 = 2 ^ 53"
  by (simp add: pow2_def)

lemma pow2_less_imp: "pow2 q < pow2 r \<Longrightarrow> q < r"
  using pow2_mono [of r q] by (cases "q < r") auto

lemma expo_down_bounds:
  "1 \<le> s \<Longrightarrow> e \<le> 1024 \<Longrightarrow>
   e \<le> expo_down s e \<and> expo_down s e \<le> 1024 \<and>
   pow2 (expo_down s e) \<le> s * pow2 e \<and>
   (expo_down s e < 1024 \<longrightarrow> s * pow2 e < pow2 (expo_down s e + 1))"
proof (induction s e rule: expo_down.induct)
  case (1 s e)
  show ?case
  proof (cases "s < 2 \<or> 1024 \<le> e")
    case True
    then have r: "expo_down s e = e" by (rule expo_down_stop)
    have "pow2 e \<le> s * pow2 e"
      using "1.prems"(1) pow2_pos [of e] by simp
    moreover have "s * pow2 e < pow2 (e + 1)" if "e < 1024"
      using True that pow2_pos [of e] by (simp add: pow2_Suc)
    ultimately show ?thesis
      using "1.prems"(2) by (simp add: r)
  next
    case False
    then have r: "expo_down s e = expo_down (s / 2) (e + 1)" by (rule expo_down_step)
    have "s / 2 * pow2 (e + 1) = s * pow2 e"
      by (simp add: pow2_Suc)
    with "1.IH" [OF False] False show ?thesis
      by (auto simp: r)
  qed
qed

lemma expo_up_bounds:
  "0 < s \<Longrightarrow> s < 2 \<Longrightarrow> - 1022 \<le> e \<Longrightarrow>
   - 1022 \<le> expo_up s e \<and> expo_up s e \<le> e \<and>
   s * pow2 e < pow2 (expo_up s e + 1) \<and>
   (expo_up s e = - 1022 \<or> pow2 (expo_up s e) \<le> s * pow2 e)"
proof (induction s e rule: expo_up.induct)
  case (1 s e)
  show ?case
  proof (cases "1 \<le> s \<or> e \<le> - 1022")
    case True
    then have r: "expo_up s e = e" by (rule expo_up_stop)
    have "s * pow2 e < pow2 (e + 1)"
      using "1.prems"(2) pow2_pos [of e] by (simp add: pow2_Suc)
    moreover have "pow2 e \<le> s * pow2 e" if "1 \<le> s"
      using that pow2_pos [of e] by simp
    ultimately show ?thesis
      using True "1.prems"(3) by (auto simp: r)
  next
    case False
    then have r: "expo_up s e = expo_up (2 * s) (e - 1)" by (rule expo_up_step)
    have "2 * s * pow2 (e - 1) = s * pow2 e"
      using pow2_pred [of e] by (simp add: mult.assoc mult.left_commute)
    with "1.IH" [OF False] False "1.prems" show ?thesis
      by (auto simp: r)
  qed
qed

lemma expo_bounds:
  assumes "0 < v" and "v < pow2 1024"
  shows "- 1022 \<le> expo v \<and> expo v \<le> 1023 \<and> v < pow2 (expo v + 1) \<and>
         (expo v = - 1022 \<or> pow2 (expo v) \<le> v)"
proof (cases "1 \<le> v")
  case True
  have e: "expo v = expo_down v 0" using True by (simp add: expo_def)
  from expo_down_bounds [OF True, of 0]
  have b: "0 \<le> expo_down v 0" "expo_down v 0 \<le> 1024" "pow2 (expo_down v 0) \<le> v"
    "expo_down v 0 < 1024 \<longrightarrow> v < pow2 (expo_down v 0 + 1)"
    by (simp_all add: pow2_0)
  have "expo_down v 0 \<noteq> 1024"
    using b(3) assms(2) by auto
  with b show ?thesis by (auto simp: e)
next
  case False
  have e: "expo v = expo_up v 0" using False by (simp add: expo_def)
  from expo_up_bounds [of v 0] assms(1) False
  show ?thesis by (simp add: e pow2_0)
qed


lemma roundHalfEven_int: "roundHalfEven (of_int m) = m"
  by (simp add: roundHalfEven_def)

lemma round_pos_dyadic:
  fixes n k :: int
  assumes n: "0 < n" "n < 2 ^ 53" and k: "- 1074 \<le> k" "k \<le> 971"
  shows "round_pos (of_int n * pow2 k) = Finite (of_int n * pow2 k)"
proof -
  define v where "v = of_int n * pow2 k"
  define e where "e = expo v"
  define q where "q = e - 52"
  have vpos: "0 < v"
    using n(1) pow2_pos [of k] by (simp add: v_def)
  have "of_int n < (2 ^ 53 :: real)"
    using n(2) by (metis of_int_less_numeral_power_cancel_iff)
  then have "of_int n * pow2 k < 2 ^ 53 * pow2 k"
    using pow2_pos [of k] by (intro mult_strict_right_mono)
  moreover have "pow2 (53 + k) = 2 ^ 53 * pow2 k"
    by (simp only: pow2_add pow2_53)
  ultimately have vlt: "v < pow2 (53 + k)"
    by (simp add: v_def)
  also have "pow2 (53 + k) \<le> pow2 1024"
    using k(2) by (intro pow2_mono) simp
  finally have vmax: "v < pow2 1024" .
  from expo_bounds [OF vpos vmax]
  have eb: "- 1022 \<le> e" "e \<le> 1023" "v < pow2 (e + 1)" "e = - 1022 \<or> pow2 e \<le> v"
    by (simp_all add: e_def)
  have qk: "q \<le> k"
  proof (cases "e = - 1022")
    case True
    with k(1) show ?thesis by (simp add: q_def)
  next
    case False
    with eb(4) have "pow2 e \<le> v" by simp
    with vlt have "pow2 e < pow2 (53 + k)" by simp
    then have "e < 53 + k" by (rule pow2_less_imp)
    then show ?thesis by (simp add: q_def)
  qed
  define M where "M = n * 2 ^ nat (k - q)"
  have kq: "pow2 k = pow2 (k - q) * pow2 q"
    using pow2_add [of "k - q" q] by simp
  have p: "pow2 (k - q) = 2 ^ nat (k - q)"
    using qk by (simp add: pow2_def)
  have vM: "v = of_int M * pow2 q"
    by (simp add: v_def M_def kq p)
  then have s: "v / pow2 q = of_int M"
    using pow2_pos [of q] by simp
  have "e + 1 = 53 + q"
    by (simp add: q_def)
  then have "pow2 (e + 1) = pow2 (53 + q)"
    by (simp only:)
  also have "\<dots> = pow2 53 * pow2 q"
    by (rule pow2_add)
  finally have "of_int M * pow2 q < pow2 53 * pow2 q"
    using eb(3) vM by simp
  then have "of_int M < pow2 53"
    using pow2_pos [of q] by simp
  then have Mlt: "M < 2 ^ 53"
    by (simp add: pow2_53)
  have "round_pos v = Finite (of_int M * pow2 q)"
    using eb(2) Mlt
    by (simp add: round_pos_def Let_def e_def [symmetric] q_def [symmetric] s roundHalfEven_int)
  then show ?thesis
    by (simp add: vM [symmetric] v_def)
qed

lemma exact_dyadic:
  fixes n k :: int
  assumes "\<bar>n\<bar> < 2 ^ 53" and "- 1074 \<le> k" and "k \<le> 971"
  shows "exact (of_int n * pow2 k)"
proof -
  consider "n = 0" | "0 < n" | "n < 0" by linarith
  then show ?thesis
  proof cases
    case 1
    then show ?thesis by (simp add: exact_def rnd_def)
  next
    case 2
    with assms have "round_pos (of_int n * pow2 k) = Finite (of_int n * pow2 k)"
      by (intro round_pos_dyadic) simp_all
    moreover have "0 < of_int n * pow2 k"
      using 2 pow2_pos [of k] by simp
    ultimately show ?thesis by (simp add: exact_def rnd_def)
  next
    case 3
    with assms have "round_pos (of_int (- n) * pow2 k) = Finite (of_int (- n) * pow2 k)"
      by (intro round_pos_dyadic) simp_all
    moreover have "of_int n * pow2 k < 0"
      using 3 pow2_pos [of k] by (simp add: mult_neg_pos)
    ultimately show ?thesis by (simp add: exact_def rnd_def)
  qed
qed


text \<open>
  A bounding box with integer bounds of magnitude at most \<open>2\<^sup>4\<^sup>0\<close>: lines 72 to 81
  compute on it without rounding.
\<close>

lemma exact_half_int:
  fixes N :: int
  assumes "\<bar>N\<bar> < 2 ^ 53"
  shows "exact (of_int N / 2)"
proof -
  have "exact (of_int N * pow2 (- 1))"
    using assms by (intro exact_dyadic) simp_all
  then show ?thesis by (simp add: pow2_def)
qed

lemma no_rounding_integer_box:
  fixes xa ya xb yb :: int
  assumes "\<bar>xa\<bar> \<le> 2 ^ 40" "\<bar>ya\<bar> \<le> 2 ^ 40" "\<bar>xb\<bar> \<le> 2 ^ 40" "\<bar>yb\<bar> \<le> 2 ^ 40"
  shows "no_rounding \<lparr>minX = of_int xa, minY = of_int ya, maxX = of_int xb, maxY = of_int yb\<rparr>"
proof -
  define bb where
    "bb = \<lparr>minX = real_of_int xa, minY = of_int ya, maxX = of_int xb, maxY = of_int yb\<rparr>"
  define D where "D = max (xb - xa) (yb - ya)"
  have D: "deltaMax bb = of_int D"
    by (simp add: deltaMax_def bb_def D_def max_def)
  have Db: "\<bar>D\<bar> \<le> 2 ^ 41"
    using assms by (simp add: D_def max_def abs_le_iff)
  have v1: "maxX bb - minX bb = of_int (2 * (xb - xa)) / 2"
    by (simp add: bb_def)
  have v2: "maxY bb - minY bb = of_int (2 * (yb - ya)) / 2"
    by (simp add: bb_def)
  have v3: "minX bb + maxX bb = of_int (2 * (xa + xb)) / 2"
    by (simp add: bb_def)
  have v4: "midX bb = of_int (xa + xb) / 2"
    by (simp add: bb_def midX_def)
  have v5: "minY bb + maxY bb = of_int (2 * (ya + yb)) / 2"
    by (simp add: bb_def)
  have v6: "midY bb = of_int (ya + yb) / 2"
    by (simp add: bb_def midY_def)
  have v7: "20 * deltaMax bb = of_int (40 * D) / 2"
    by (simp add: D)
  have v8: "midX bb - 20 * deltaMax bb = of_int (xa + xb - 40 * D) / 2"
    by (simp add: D v4 diff_divide_distrib)
  have v9: "midX bb + 20 * deltaMax bb = of_int (xa + xb + 40 * D) / 2"
    by (simp add: D v4 add_divide_distrib)
  have v10: "midY bb - deltaMax bb = of_int (ya + yb - 2 * D) / 2"
    by (simp add: D v6 diff_divide_distrib)
  have v11: "midY bb + 20 * deltaMax bb = of_int (ya + yb + 40 * D) / 2"
    by (simp add: D v6 add_divide_distrib)
  have bounds: "\<bar>xa\<bar> \<le> 2 ^ 40 \<and> \<bar>ya\<bar> \<le> 2 ^ 40 \<and> \<bar>xb\<bar> \<le> 2 ^ 40 \<and> \<bar>yb\<bar> \<le> 2 ^ 40 \<and> \<bar>D\<bar> \<le> 2 ^ 41"
    using assms Db by simp
  have x1: "exact (maxX bb - minX bb)"
    unfolding v1 using bounds by (intro exact_half_int) (simp add: abs_le_iff abs_less_iff)
  have x2: "exact (maxY bb - minY bb)"
    unfolding v2 using bounds by (intro exact_half_int) (simp add: abs_le_iff abs_less_iff)
  have x3: "exact (minX bb + maxX bb)"
    unfolding v3 using bounds by (intro exact_half_int) (simp add: abs_le_iff abs_less_iff)
  have x4: "exact (midX bb)"
    unfolding v4 using bounds by (intro exact_half_int) (simp add: abs_le_iff abs_less_iff)
  have x5: "exact (minY bb + maxY bb)"
    unfolding v5 using bounds by (intro exact_half_int) (simp add: abs_le_iff abs_less_iff)
  have x6: "exact (midY bb)"
    unfolding v6 using bounds by (intro exact_half_int) (simp add: abs_le_iff abs_less_iff)
  have x7: "exact (20 * deltaMax bb)"
    unfolding v7 using bounds by (intro exact_half_int) (simp add: abs_le_iff abs_less_iff)
  have x8: "exact (midX bb - 20 * deltaMax bb)"
    unfolding v8 using bounds by (intro exact_half_int) (simp add: abs_le_iff abs_less_iff)
  have x9: "exact (midX bb + 20 * deltaMax bb)"
    unfolding v9 using bounds by (intro exact_half_int) (simp add: abs_le_iff abs_less_iff)
  have x10: "exact (midY bb - deltaMax bb)"
    unfolding v10 using bounds by (intro exact_half_int) (simp add: abs_le_iff abs_less_iff)
  have x11: "exact (midY bb + 20 * deltaMax bb)"
    unfolding v11 using bounds by (intro exact_half_int) (simp add: abs_le_iff abs_less_iff)
  have "no_rounding bb"
    unfolding no_rounding_def
    using x1 x2 x3 x4 x5 x6 x7 x8 x9 x10 x11 by blast
  then show ?thesis by (simp add: bb_def)
qed


text \<open>
  On points whose coordinates are multiples of one half of magnitude at most 1024, every
  operation of the determinant is exact: the binary64 determinant is the exact one, and
  the binary64 test agrees with the test in exact arithmetic.
\<close>

lemma grid_add: "grid j B u \<Longrightarrow> grid j C v \<Longrightarrow> grid j (B + C) (u + v)"
  unfolding grid_def
proof (elim exE conjE)
  fix n m :: int
  assume "u = of_int n / 2 ^ j" "\<bar>n\<bar> \<le> B" "v = of_int m / 2 ^ j" "\<bar>m\<bar> \<le> C"
  then have "u + v = of_int (n + m) / 2 ^ j \<and> \<bar>n + m\<bar> \<le> B + C"
    by (simp add: add_divide_distrib)
  then show "\<exists>k. u + v = of_int k / 2 ^ j \<and> \<bar>k\<bar> \<le> B + C"
    by blast
qed

lemma grid_diff: "grid j B u \<Longrightarrow> grid j C v \<Longrightarrow> grid j (B + C) (u - v)"
  unfolding grid_def
proof (elim exE conjE)
  fix n m :: int
  assume "u = of_int n / 2 ^ j" "\<bar>n\<bar> \<le> B" "v = of_int m / 2 ^ j" "\<bar>m\<bar> \<le> C"
  then have "u - v = of_int (n - m) / 2 ^ j \<and> \<bar>n - m\<bar> \<le> B + C"
    by (simp add: diff_divide_distrib)
  then show "\<exists>k. u - v = of_int k / 2 ^ j \<and> \<bar>k\<bar> \<le> B + C"
    by blast
qed

lemma grid_mult: "grid j B u \<Longrightarrow> grid i C v \<Longrightarrow> grid (j + i) (B * C) (u * v)"
  unfolding grid_def
proof (elim exE conjE)
  fix n m :: int
  assume h: "u = of_int n / 2 ^ j" "\<bar>n\<bar> \<le> B" "v = of_int m / 2 ^ i" "\<bar>m\<bar> \<le> C"
  have "\<bar>n * m\<bar> = \<bar>n\<bar> * \<bar>m\<bar>" by (rule abs_mult)
  also have "\<dots> \<le> B * C"
    using h(2,4) by (intro mult_mono) simp_all
  finally have "u * v = of_int (n * m) / 2 ^ (j + i) \<and> \<bar>n * m\<bar> \<le> B * C"
    using h(1,3) by (simp add: power_add)
  then show "\<exists>k. u * v = of_int k / 2 ^ (j + i) \<and> \<bar>k\<bar> \<le> B * C"
    by blast
qed

lemma grid_cong: "grid j B v \<Longrightarrow> j = i \<Longrightarrow> B = C \<Longrightarrow> grid i C v"
  by simp

lemma grid_exact:
  assumes "grid j B v" and "B < 2 ^ 53" and "j \<le> 1074"
  shows "exact v"
proof -
  from assms(1) obtain n where n: "v = of_int n / 2 ^ j" "\<bar>n\<bar> \<le> B"
    by (auto simp: grid_def)
  have "pow2 (- int j) = 1 / 2 ^ j"
    by (simp add: pow2_def)
  then have "v = of_int n * pow2 (- int j)"
    by (simp add: n(1))
  moreover have "exact (of_int n * pow2 (- int j))"
    using n(2) assms(2,3) by (intro exact_dyadic) simp_all
  ultimately show ?thesis by simp
qed

lemma circumDetD_exact:
  assumes p: "on_half_grid p" and A: "on_half_grid (a t)" and B: "on_half_grid (b t)"
    and C: "on_half_grid (c t)"
  shows "circumDetD (PointD_of p) (TriangleD_of t) = Finite (circumDet p t) \<and>
         grid 4 (3 * 2 ^ 50) (circumDet p t)"
proof -
  define ax where "ax = x (a t) - x p"
  define ay where "ay = y (a t) - y p"
  define bx where "bx = x (b t) - x p"
  define by' where "by' = y (b t) - y p"
  define cx where "cx = x (c t) - x p"
  define cy where "cy = y (c t) - y p"
  note defs = ax_def ay_def bx_def by'_def cx_def cy_def
  have d: "grid 1 (2 ^ 12) ax" "grid 1 (2 ^ 12) ay" "grid 1 (2 ^ 12) bx"
    "grid 1 (2 ^ 12) by'" "grid 1 (2 ^ 12) cx" "grid 1 (2 ^ 12) cy"
    unfolding defs using p A B C
    by (auto simp: on_half_grid_def intro!: grid_cong [OF grid_diff])
  have m: "grid 2 (2 ^ 24) (u * v)" if "grid 1 (2 ^ 12) u" "grid 1 (2 ^ 12) v" for u v
    by (rule grid_cong [OF grid_mult [OF that]]) simp_all
  have n2: "grid 2 (2 ^ 25) (u * u + v * v)" and cr: "grid 2 (2 ^ 25) (u * w - r * v)"
    if "grid 1 (2 ^ 12) u" "grid 1 (2 ^ 12) v" "grid 1 (2 ^ 12) w" "grid 1 (2 ^ 12) r"
    for u v w r
    by (rule grid_cong [OF grid_add [OF m [OF that(1) that(1)] m [OF that(2) that(2)]]];
        simp)
      (rule grid_cong [OF grid_diff [OF m [OF that(1) that(3)] m [OF that(4) that(2)]]];
        simp)
  have T: "grid 4 (2 ^ 50) (u * v)" if "grid 2 (2 ^ 25) u" "grid 2 (2 ^ 25) v" for u v
    by (rule grid_cong [OF grid_mult [OF that]]) simp_all
  have ex: "exact v" if "grid j B v" "B \<le> 3 * 2 ^ 50" "j \<le> 4" for j B v
    using that by (intro grid_exact [of j B v]) simp_all
  let ?Na = "ax * ax + ay * ay" and ?Nb = "bx * bx + by' * by'" and ?Nc = "cx * cx + cy * cy"
  let ?Xbc = "bx * cy - cx * by'" and ?Xac = "ax * cy - cx * ay" and ?Xab = "ax * by' - bx * ay"
  have g: "grid 2 (2 ^ 25) ?Na" "grid 2 (2 ^ 25) ?Nb" "grid 2 (2 ^ 25) ?Nc"
    "grid 2 (2 ^ 25) ?Xbc" "grid 2 (2 ^ 25) ?Xac" "grid 2 (2 ^ 25) ?Xab"
    using n2 [OF d(1) d(2) d(1) d(1)] n2 [OF d(3) d(4) d(1) d(1)] n2 [OF d(5) d(6) d(1) d(1)]
      cr [OF d(3) d(4) d(6) d(5)] cr [OF d(1) d(2) d(6) d(5)] cr [OF d(1) d(2) d(4) d(3)]
    by simp_all
  have t: "grid 4 (2 ^ 50) (?Na * ?Xbc)" "grid 4 (2 ^ 50) (?Nb * ?Xac)"
    "grid 4 (2 ^ 50) (?Nc * ?Xab)"
    using T g by simp_all
  have s1: "grid 4 (2 ^ 51) (?Na * ?Xbc - ?Nb * ?Xac)"
    by (rule grid_cong [OF grid_diff [OF t(1) t(2)]]) simp_all
  have s2: "grid 4 (3 * 2 ^ 50) (?Na * ?Xbc - ?Nb * ?Xac + ?Nc * ?Xab)"
    by (rule grid_cong [OF grid_add [OF s1 t(3)]]) simp_all
  have det: "circumDet p t = ?Na * ?Xbc - ?Nb * ?Xac + ?Nc * ?Xab"
    by (simp add: circumDet_def Let_def defs)
  have e_sub: "dsub (Finite (x (a t))) (Finite (x p)) = Finite ax"
    "dsub (Finite (y (a t))) (Finite (y p)) = Finite ay"
    "dsub (Finite (x (b t))) (Finite (x p)) = Finite bx"
    "dsub (Finite (y (b t))) (Finite (y p)) = Finite by'"
    "dsub (Finite (x (c t))) (Finite (x p)) = Finite cx"
    "dsub (Finite (y (c t))) (Finite (y p)) = Finite cy"
    unfolding defs using d ex [of 1 "2 ^ 12"] by (simp_all add: exact_def dsub_def defs)
  have e_mul: "dmul (Finite u) (Finite v) = Finite (u * v)"
    if "grid 1 (2 ^ 12) u" "grid 1 (2 ^ 12) v" for u v
    using ex [OF m [OF that]] by (simp add: exact_def)
  have e_n2: "dadd (Finite (u * u)) (Finite (v * v)) = Finite (u * u + v * v)"
    and e_cr: "dsub (Finite (u * w)) (Finite (r * v)) = Finite (u * w - r * v)"
    if "grid 1 (2 ^ 12) u" "grid 1 (2 ^ 12) v" "grid 1 (2 ^ 12) w" "grid 1 (2 ^ 12) r"
    for u v w r
    using ex [OF n2 [OF that]] ex [OF cr [OF that]] by (simp_all add: exact_def dsub_def)
  have e_T: "dmul (Finite u) (Finite v) = Finite (u * v)"
    if "grid 2 (2 ^ 25) u" "grid 2 (2 ^ 25) v" for u v
    using ex [OF T [OF that]] by (simp add: exact_def)
  have e_s1: "dsub (Finite (?Na * ?Xbc)) (Finite (?Nb * ?Xac)) =
      Finite (?Na * ?Xbc - ?Nb * ?Xac)"
    using ex [OF s1] by (simp add: exact_def dsub_def)
  have e_s2: "dadd (Finite (?Na * ?Xbc - ?Nb * ?Xac)) (Finite (?Nc * ?Xab)) =
      Finite (?Na * ?Xbc - ?Nb * ?Xac + ?Nc * ?Xab)"
    using ex [OF s2] by (simp add: exact_def)
  have "circumDetD (PointD_of p) (TriangleD_of t) =
      Finite (?Na * ?Xbc - ?Nb * ?Xac + ?Nc * ?Xab)"
    unfolding circumDetD_def Let_def PointD_of_def TriangleD_of_def
    by (simp only: PointD.simps TriangleD.simps e_sub
        e_mul [OF d(1) d(1)] e_mul [OF d(2) d(2)] e_mul [OF d(3) d(3)] e_mul [OF d(4) d(4)]
        e_mul [OF d(5) d(5)] e_mul [OF d(6) d(6)]
        e_mul [OF d(3) d(6)] e_mul [OF d(5) d(4)] e_mul [OF d(1) d(6)] e_mul [OF d(5) d(2)]
        e_mul [OF d(1) d(4)] e_mul [OF d(3) d(2)]
        e_n2 [OF d(1) d(2) d(1) d(1)] e_n2 [OF d(3) d(4) d(1) d(1)] e_n2 [OF d(5) d(6) d(1) d(1)]
        e_cr [OF d(3) d(4) d(6) d(5)] e_cr [OF d(1) d(2) d(6) d(5)] e_cr [OF d(1) d(2) d(4) d(3)]
        e_T [OF g(1) g(4)] e_T [OF g(2) g(5)] e_T [OF g(3) g(6)] e_s1 e_s2)
  with det s2 show ?thesis by simp
qed


lemma inCircumcircleD_exact:
  assumes "on_half_grid p" and "on_half_grid (a t)" and "on_half_grid (b t)"
    and "on_half_grid (c t)"
  shows "inCircumcircleD (PointD_of p) (TriangleD_of t) = inCircumcircle p t"
proof -
  from circumDetD_exact [OF assms] obtain n :: int where
    d: "circumDetD (PointD_of p) (TriangleD_of t) = Finite (circumDet p t)"
    and n: "circumDet p t = of_int n / 2 ^ 4"
    by (auto simp: grid_def)
  have "inCircumcircleD (PointD_of p) (TriangleD_of t) =
          (4835703278458517 / 2 ^ 82 < circumDet p t)"
    unfolding inCircumcircleD_def d literal_1e_9 by (simp add: dgt_def)
  also have "\<dots> = (1 \<le> n)"
  proof (cases "1 \<le> n")
    case True
    then have "(1 :: real) \<le> of_int n" by simp
    then show ?thesis using True by (simp add: n)
  next
    case False
    then have "of_int n \<le> (0 :: real)" by simp
    then show ?thesis using False by (simp add: n)
  qed
  also have "\<dots> = (1 / 10 ^ 9 < circumDet p t)"
  proof (cases "1 \<le> n")
    case True
    then have "(1 :: real) \<le> of_int n" by simp
    then show ?thesis using True by (simp add: n)
  next
    case False
    then have "of_int n \<le> (0 :: real)" by simp
    then show ?thesis using False by (simp add: n)
  qed
  finally show ?thesis by (simp add: inCircumcircle_def)
qed

text \<open>
  Overflow: a result of \<open>2\<^sup>1\<^sup>0\<^sup>2\<^sup>4\<close> or more rounds to an infinity. For the two points
  \<open>(2\<^sup>1\<^sup>0\<^sup>2\<^sup>3, 0)\<close> and \<open>(3 * 2\<^sup>1\<^sup>0\<^sup>2\<^sup>2, 0)\<close> the sum of the bounds and the product
  \<open>20 * deltaMax\<close> overflow, and the first corner gets the coordinate
  \<open>\<infinity> - \<infinity>\<close>, a NaN.
\<close>

lemma round_pos_overflow:
  assumes "pow2 1024 \<le> v"
  shows "round_pos v = PInf"
proof -
  have one: "1 \<le> v"
    using assms pow2_mono [of 0 1024] by (simp add: pow2_0)
  from expo_down_bounds [OF one, of 0]
  have b: "expo_down v 0 \<le> 1024" "expo_down v 0 < 1024 \<longrightarrow> v < pow2 (expo_down v 0 + 1)"
    by (simp_all add: pow2_0)
  have "expo_down v 0 = 1024"
  proof (rule ccontr)
    assume "expo_down v 0 \<noteq> 1024"
    with b have lt: "expo_down v 0 < 1024" and "v < pow2 (expo_down v 0 + 1)" by auto
    moreover have "pow2 (expo_down v 0 + 1) \<le> pow2 1024"
      using lt by (intro pow2_mono) simp
    ultimately show False using assms by simp
  qed
  then show ?thesis
    using one by (simp add: round_pos_def expo_def)
qed

lemma rnd_overflow: "2 ^ 1024 \<le> v \<Longrightarrow> rnd v = PInf"
  using round_pos_overflow [of v] by (simp add: rnd_def pow2_def) 

lemma rnd_0: "rnd 0 = Finite 0"
  by (simp add: rnd_def)



text \<open>
  A query point at the centre of the circle through three points with coordinates
  \<open>2\<^sup>6\<^sup>0\<^sup>0\<close>: the squares overflow, the determinant is NaN and the test fails, while in
  exact arithmetic the determinant is positive.
\<close>

lemma dlt_NaN_right: "dlt u NaN = False"
  by (cases u) simp_all

lemma det_overflow_generic:
  assumes "rnd U = Finite U" and "rnd (- U) = Finite (- U)" and "rnd (U * U) = PInf"
    and "0 < U"
  shows "circumDetD (PointD_of (pt 0 0))
           (TriangleD_of (tri (pt U 0) (pt 0 U) (pt (- U) 0))) = NaN"
proof -
  have "rnd (- (U * U)) = MInf"
    using rnd_minus [of "U * U"] assms(3) by simp
  then show ?thesis
    using assms
    by (simp add: circumDetD_def PointD_of_def TriangleD_of_def dsub_def rnd_0 inf_of_sign_def)
qed

lemma det_overflow_example:
  "circumDetD (PointD_of (pt 0 0))
     (TriangleD_of (tri (pt (2 ^ 600) 0) (pt 0 (2 ^ 600)) (pt (- (2 ^ 600)) 0))) = NaN \<and>
   \<not> inCircumcircleD (PointD_of (pt 0 0))
     (TriangleD_of (tri (pt (2 ^ 600) 0) (pt 0 (2 ^ 600)) (pt (- (2 ^ 600)) 0))) \<and>
   inCircumcircle (pt 0 0) (tri (pt (2 ^ 600) 0) (pt 0 (2 ^ 600)) (pt (- (2 ^ 600)) 0))"
proof -
  have p: "of_int (2 ^ 52) * pow2 548 = (2 ^ 600 :: real)"
    by (simp add: pow2_def)
  have "exact (of_int (2 ^ 52) * pow2 548)"
    by (intro exact_dyadic) simp_all
  then have "exact (2 ^ 600)"
    by (simp only: p)
  then have u: "rnd (2 ^ 600) = Finite (2 ^ 600)"
    by (simp only: exact_def)
  have un: "rnd (- (2 ^ 600)) = Finite (- (2 ^ 600))"
    by (simp only: rnd_minus u dneg.simps)
  have uu: "rnd (2 ^ 600 * 2 ^ 600) = PInf"
    by (rule rnd_overflow) simp
  have d: "circumDetD (PointD_of (pt 0 0))
     (TriangleD_of (tri (pt (2 ^ 600) 0) (pt 0 (2 ^ 600)) (pt (- (2 ^ 600)) 0))) = NaN"
    by (rule det_overflow_generic [OF u un uu]) simp
  have nd: "\<not> inCircumcircleD (PointD_of (pt 0 0))
     (TriangleD_of (tri (pt (2 ^ 600) 0) (pt 0 (2 ^ 600)) (pt (- (2 ^ 600)) 0)))"
    unfolding inCircumcircleD_def d by (simp add: dgt_def dlt_NaN_right)
  have ex: "inCircumcircle (pt 0 0) (tri (pt (2 ^ 600) 0) (pt 0 (2 ^ 600)) (pt (- (2 ^ 600)) 0))"
    by (simp add: inCircumcircle_def circumDet_def)
  show ?thesis
    by (intro conjI) (rule d, rule nd, rule ex)
qed

text \<open>
  The list-level model against the binary64 test. When the points and the corners of the
  super-triangle are on the half grid, so is every vertex of every triangle of the
  insertion loop, and each test of the loop has the outcome of the binary64 test. The
  three points of scenario A and their super-triangle are such an input.
\<close>

lemma tests_exact_on_half_grid:
  assumes ps: "\<forall>r\<in>set ps. on_half_grid r"
    and s: "on_half_grid (a s)" "on_half_grid (b s)" "on_half_grid (c s)"
    and q: "on_half_grid q"
    and t: "t \<in> set (insertAll ps [s])"
  shows "inCircumcircleD (PointD_of q) (TriangleD_of t) = inCircumcircle q t"
proof -
  let ?V = "{r. on_half_grid r}"
  have "\<forall>u\<in>set (insertAll ps [s]). a u \<in> ?V \<and> b u \<in> ?V \<and> c u \<in> ?V"
    using ps s by (intro insertAll_vertices) auto
  with t have "on_half_grid (a t)" "on_half_grid (b t)" "on_half_grid (c t)"
    by auto
  with q show ?thesis
    by (intro inCircumcircleD_exact)
qed

lemma on_half_grid_halves:
  fixes i j :: int
  assumes "\<bar>i\<bar> \<le> 2 ^ 11" and "\<bar>j\<bar> \<le> 2 ^ 11"
  shows "on_half_grid (pt (of_int i / 2) (of_int j / 2))"
  using assms by (auto simp: on_half_grid_def grid_def)

lemma scenario_A_on_half_grid:
  "on_half_grid (pt 0 0)" "on_half_grid (pt 1 0)" "on_half_grid (pt 0 1)"
  "on_half_grid (pt (- 39 / 2) (- 1 / 2))" "on_half_grid (pt (41 / 2) (- 1 / 2))"
  "on_half_grid (pt (1 / 2) (41 / 2))"
  using on_half_grid_halves [of 0 0] on_half_grid_halves [of 2 0] on_half_grid_halves [of 0 2]
    on_half_grid_halves [of "- 39" "- 1"] on_half_grid_halves [of 41 "- 1"]
    on_half_grid_halves [of 1 41]
  by simp_all

lemma scenario_A_tests_exact:
  assumes "set ps \<subseteq> {pt 0 0, pt 1 0, pt 0 1}" and "q \<in> {pt 0 0, pt 1 0, pt 0 1}"
    and "t \<in> set (insertAll ps
           [tri (pt (- 39 / 2) (- 1 / 2)) (pt (41 / 2) (- 1 / 2)) (pt (1 / 2) (41 / 2))])"
  shows "inCircumcircleD (PointD_of q) (TriangleD_of t) = inCircumcircle q t"
proof (rule tests_exact_on_half_grid [OF _ _ _ _ _ assms(3)])
  show "\<forall>r\<in>set ps. on_half_grid r"
    using assms(1) scenario_A_on_half_grid(1-3) by auto
  show "on_half_grid q"
    using assms(2) scenario_A_on_half_grid(1-3) by auto
qed (simp_all only: Triangle.select_convs scenario_A_on_half_grid)

section \<open>Properties\<close>

subsection \<open>The circumcircle predicate\<close>

text \<open>
  Claim C2. For every query point and triangle, \<open>inCircumcircle\<close> returns true if and only
  if \<open>det > 1e-9\<close>, where \<open>det = |A|\<^sup>2(B \<times> C) - |B|\<^sup>2(A \<times> C) + |C|\<^sup>2(A \<times> B)\<close> is
  computed in binary64 on the vertices translated by the query point and \<open>1e-9\<close> is the
  double nearest to that decimal. A NaN determinant gives false. The function is a pure
  function of its two arguments.
\<close>

theorem inCircumcircleD_iff_spec_detD:
  "inCircumcircleD p t = dgt (spec_detD p t) (rnd (1 / 10 ^ 9)) \<and>
   rnd (1 / 10 ^ 9) = Finite (4835703278458517 / 2 ^ 82) \<and>
   inCircumcircleD p t =
     (case spec_detD p t of
        Finite v \<Rightarrow> 4835703278458517 / 2 ^ 82 < v
      | PInf \<Rightarrow> True | MInf \<Rightarrow> False | NaN \<Rightarrow> False)"
proof (intro conjI)
  show iff: "inCircumcircleD p t = dgt (spec_detD p t) (rnd (1 / 10 ^ 9))"
    by (simp add: inCircumcircleD_def circumDetD_def spec_detD_def translateD_def norm2D_def
        cross2D_def Let_def)
  show "rnd (1 / 10 ^ 9) = Finite (4835703278458517 / 2 ^ 82)"
    by (rule literal_1e_9)
  show "inCircumcircleD p t =
     (case spec_detD p t of
        Finite v \<Rightarrow> 4835703278458517 / 2 ^ 82 < v
      | PInf \<Rightarrow> True | MInf \<Rightarrow> False | NaN \<Rightarrow> False)"
    unfolding iff literal_1e_9 by (cases "spec_detD p t") (simp_all add: dgt_def)
qed




subsection \<open>The super-triangle\<close>






subsection \<open>One insertion step\<close>

text \<open>
  Claim C6. In the insertion of a point, the flagged list holds the triangles whose
  circumcircle test succeeds, and the triangles that survive \<^verbatim>\<open>remove_if\<close> are those with
  no flagged triangle equal to them slot by slot (\<open>a\<close> with \<open>a\<close>, \<open>b\<close> with \<open>b\<close>, \<open>c\<close>
  with \<open>c\<close>); the new triangles follow them. The comparison is not invariant under
  permutation: a flagged \<open>(A, B, C)\<close> with \<open>A \<noteq> B\<close> does not remove \<open>(B, A, C)\<close>.
\<close>

theorem bad_triangle_removal_positional:
  "(scanTriangles point triangles ([], []) = (badTriangles, polygon) \<longrightarrow>
     badTriangles = filter (inCircumcircle point) triangles \<and>
     insertPoint point triangles =
       filter (\<lambda>t. \<not> (\<exists>bad\<in>set badTriangles.
          Point_eq (a t) (a bad) \<and> Point_eq (b t) (b bad) \<and> Point_eq (c t) (c bad))) triangles @
       map (\<lambda>e. tri (p1 e) (p2 e) point) (findUniqueEdges polygon)) \<and>
   (A \<noteq> B \<longrightarrow>
     erase_remove_if (matchesBad [tri A B C]) [tri B A C] = [tri B A C])"
proof (intro conjI impI)
  assume scan: "scanTriangles point triangles ([], []) = (badTriangles, polygon)"
  then show "badTriangles = filter (inCircumcircle point) triangles"
    by (simp add: scanTriangles_eq)
  show "insertPoint point triangles =
       filter (\<lambda>t. \<not> (\<exists>bad\<in>set badTriangles.
          Point_eq (a t) (a bad) \<and> Point_eq (b t) (b bad) \<and> Point_eq (c t) (c bad))) triangles @
       map (\<lambda>e. tri (p1 e) (p2 e) point) (findUniqueEdges polygon)"
    by (simp only: insertPoint_parts [OF scan] erase_matchesBad)
next
  assume "A \<noteq> B"
  then show "erase_remove_if (matchesBad [tri A B C]) [tri B A C] = [tri B A C]"
    by (simp add: erase_remove_if_def Point_eq_iff)
qed

text \<open>
  At the point \<open>(0, 0)\<close>, the triangle \<open>(-1, -1), (1, -1), (0, 1)\<close> is flagged and removed,
  and the same triangle with its first two vertices exchanged stays in the list.
\<close>

theorem bad_triangle_removal_positional_witness:
  "scanTriangles (pt 0 0)
     [tri (pt (-1) (-1)) (pt 1 (-1)) (pt 0 1), tri (pt 1 (-1)) (pt (-1) (-1)) (pt 0 1)] ([], []) =
     ([tri (pt (-1) (-1)) (pt 1 (-1)) (pt 0 1)],
      [seg (pt (-1) (-1)) (pt 1 (-1)), seg (pt 1 (-1)) (pt 0 1), seg (pt 0 1) (pt (-1) (-1))]) \<and>
   insertPoint (pt 0 0)
     [tri (pt (-1) (-1)) (pt 1 (-1)) (pt 0 1), tri (pt 1 (-1)) (pt (-1) (-1)) (pt 0 1)] =
     [tri (pt 1 (-1)) (pt (-1) (-1)) (pt 0 1),
      tri (pt (-1) (-1)) (pt 1 (-1)) (pt 0 0),
      tri (pt 1 (-1)) (pt 0 1) (pt 0 0),
      tri (pt 0 1) (pt (-1) (-1)) (pt 0 0)] \<and>
   pt (-1) (-1) \<noteq> pt 1 (-1) \<and>
   erase_remove_if (matchesBad [tri (pt (-1) (-1)) (pt 1 (-1)) (pt 0 1)])
     [tri (pt 1 (-1)) (pt (-1) (-1)) (pt 0 1)] = [tri (pt 1 (-1)) (pt (-1) (-1)) (pt 0 1)]"
proof -
  have scan: "scanTriangles (pt 0 0)
     [tri (pt (-1) (-1)) (pt 1 (-1)) (pt 0 1), tri (pt 1 (-1)) (pt (-1) (-1)) (pt 0 1)] ([], []) =
     ([tri (pt (-1) (-1)) (pt 1 (-1)) (pt 0 1)],
      [seg (pt (-1) (-1)) (pt 1 (-1)), seg (pt 1 (-1)) (pt 0 1), seg (pt 0 1) (pt (-1) (-1))])"
    by (simp add: inCircumcircle_def circumDet_def)
  have neq: "pt (-1) (-1) \<noteq> pt 1 (-1)"
    by simp
  have uniq: "findUniqueEdges
      [seg (pt (-1) (-1)) (pt 1 (-1)), seg (pt 1 (-1)) (pt 0 1), seg (pt 0 1) (pt (-1) (-1))] =
      [seg (pt (-1) (-1)) (pt 1 (-1)), seg (pt 1 (-1)) (pt 0 1), seg (pt 0 1) (pt (-1) (-1))]"
    by (simp add: findUniqueEdges_eq Edge_eq_def Point_eq_def)
  have inst: "insertPoint (pt 0 0)
       [tri (pt (-1) (-1)) (pt 1 (-1)) (pt 0 1), tri (pt 1 (-1)) (pt (-1) (-1)) (pt 0 1)] =
     filter (\<lambda>t. \<not> (\<exists>bad\<in>set [tri (pt (-1) (-1)) (pt 1 (-1)) (pt 0 1)].
          Point_eq (a t) (a bad) \<and> Point_eq (b t) (b bad) \<and> Point_eq (c t) (c bad)))
       [tri (pt (-1) (-1)) (pt 1 (-1)) (pt 0 1), tri (pt 1 (-1)) (pt (-1) (-1)) (pt 0 1)] @
     map (\<lambda>e. tri (p1 e) (p2 e) (pt 0 0))
       (findUniqueEdges
         [seg (pt (-1) (-1)) (pt 1 (-1)), seg (pt 1 (-1)) (pt 0 1), seg (pt 0 1) (pt (-1) (-1))])"
    and keep: "erase_remove_if (matchesBad [tri (pt (-1) (-1)) (pt 1 (-1)) (pt 0 1)])
       [tri (pt 1 (-1)) (pt (-1) (-1)) (pt 0 1)] = [tri (pt 1 (-1)) (pt (-1) (-1)) (pt 0 1)]"
    using bad_triangle_removal_positional
      [of "pt 0 0"
        "[tri (pt (-1) (-1)) (pt 1 (-1)) (pt 0 1), tri (pt 1 (-1)) (pt (-1) (-1)) (pt 0 1)]"
        "[tri (pt (-1) (-1)) (pt 1 (-1)) (pt 0 1)]"
        "[seg (pt (-1) (-1)) (pt 1 (-1)), seg (pt 1 (-1)) (pt 0 1), seg (pt 0 1) (pt (-1) (-1))]"
        "pt (-1) (-1)" "pt 1 (-1)" "pt 0 1"]
      scan neq
    by blast+
  have ins: "insertPoint (pt 0 0)
     [tri (pt (-1) (-1)) (pt 1 (-1)) (pt 0 1), tri (pt 1 (-1)) (pt (-1) (-1)) (pt 0 1)] =
     [tri (pt 1 (-1)) (pt (-1) (-1)) (pt 0 1),
      tri (pt (-1) (-1)) (pt 1 (-1)) (pt 0 0),
      tri (pt 1 (-1)) (pt 0 1) (pt 0 0),
      tri (pt 0 1) (pt (-1) (-1)) (pt 0 0)]"
    unfolding inst uniq by (simp add: Point_eq_def)
  show ?thesis
    using scan ins neq keep by blast
qed

text \<open>
  Claim C4. In the insertion of a point, the working list holds the three edges of every
  flagged triangle, and the triangles appended are built from exactly the edges of that
  list that occur once in it, counted with the undirected edge equality: the edge at
  index \<open>i\<close> is kept if and only if no other index of the whole list holds an equal edge.
  Two edges are equal if and only if their endpoint sets are equal.
\<close>

theorem cavity_boundary_edges_unique:
  "(scanTriangles point triangles ([], []) = (badTriangles, polygon) \<longrightarrow>
     polygon = concat (map edgesOf badTriangles) \<and>
     insertPoint point triangles =
       erase_remove_if (matchesBad badTriangles) triangles @
       map (\<lambda>e. tri (p1 e) (p2 e) point)
         (filter (\<lambda>e. length (filter (Edge_eq e) polygon) = 1) polygon)) \<and>
   findUniqueEdges es = filter (\<lambda>e. length (filter (Edge_eq e) es) = 1) es \<and>
   (\<forall>i<length es. isUniqueFrom es i 0 =
      (\<forall>j<length es. j \<noteq> i \<longrightarrow> \<not> Edge_eq (es ! i) (es ! j))) \<and>
   (\<forall>e f. Edge_eq e f = ({p1 e, p2 e} = {p1 f, p2 f}))"
proof (intro conjI impI)
  assume scan: "scanTriangles point triangles ([], []) = (badTriangles, polygon)"
  then show "polygon = concat (map edgesOf badTriangles)"
    by (auto simp: scanTriangles_eq)
  show "insertPoint point triangles =
       erase_remove_if (matchesBad badTriangles) triangles @
       map (\<lambda>e. tri (p1 e) (p2 e) point)
         (filter (\<lambda>e. length (filter (Edge_eq e) polygon) = 1) polygon)"
    by (simp only: insertPoint_parts [OF scan] findUniqueEdges_eq)
next
  show "findUniqueEdges es = filter (\<lambda>e. length (filter (Edge_eq e) es) = 1) es"
    by (rule findUniqueEdges_eq)
  show "\<forall>i<length es. isUniqueFrom es i 0 =
      (\<forall>j<length es. j \<noteq> i \<longrightarrow> \<not> Edge_eq (es ! i) (es ! j))"
    by (auto simp: isUniqueFrom_iff)
  show "\<forall>e f. Edge_eq e f = ({p1 e, p2 e} = {p1 f, p2 f})"
    by (simp add: Edge_eq_iff)
qed

text \<open>
  Two flagged triangles that share the edge between \<open>(0, 0)\<close> and \<open>(1, 1)\<close>, in opposite
  directions: the shared edge occurs twice in the working list and is dropped, the other
  four edges are kept.
\<close>

theorem cavity_boundary_edges_unique_witness:
  "scanTriangles (pt (1 / 2) (1 / 2))
     [tri (pt 0 0) (pt 1 0) (pt 1 1), tri (pt 0 0) (pt 1 1) (pt 0 1)] ([], []) =
     ([tri (pt 0 0) (pt 1 0) (pt 1 1), tri (pt 0 0) (pt 1 1) (pt 0 1)],
      [seg (pt 0 0) (pt 1 0), seg (pt 1 0) (pt 1 1), seg (pt 1 1) (pt 0 0),
       seg (pt 0 0) (pt 1 1), seg (pt 1 1) (pt 0 1), seg (pt 0 1) (pt 0 0)]) \<and>
   insertPoint (pt (1 / 2) (1 / 2))
     [tri (pt 0 0) (pt 1 0) (pt 1 1), tri (pt 0 0) (pt 1 1) (pt 0 1)] =
     [tri (pt 0 0) (pt 1 0) (pt (1 / 2) (1 / 2)), tri (pt 1 0) (pt 1 1) (pt (1 / 2) (1 / 2)),
      tri (pt 1 1) (pt 0 1) (pt (1 / 2) (1 / 2)), tri (pt 0 1) (pt 0 0) (pt (1 / 2) (1 / 2))] \<and>
   \<not> isUniqueFrom
     [seg (pt 0 0) (pt 1 0), seg (pt 1 0) (pt 1 1), seg (pt 1 1) (pt 0 0),
       seg (pt 0 0) (pt 1 1), seg (pt 1 1) (pt 0 1), seg (pt 0 1) (pt 0 0)] 2 0"
proof -
  have scan: "scanTriangles (pt (1 / 2) (1 / 2))
     [tri (pt 0 0) (pt 1 0) (pt 1 1), tri (pt 0 0) (pt 1 1) (pt 0 1)] ([], []) =
     ([tri (pt 0 0) (pt 1 0) (pt 1 1), tri (pt 0 0) (pt 1 1) (pt 0 1)],
      [seg (pt 0 0) (pt 1 0), seg (pt 1 0) (pt 1 1), seg (pt 1 1) (pt 0 0),
       seg (pt 0 0) (pt 1 1), seg (pt 1 1) (pt 0 1), seg (pt 0 1) (pt 0 0)])"
    by (simp add: inCircumcircle_def circumDet_def)
  have idx: "(2::nat) < length
     [seg (pt 0 0) (pt 1 0), seg (pt 1 0) (pt 1 1), seg (pt 1 1) (pt 0 0),
       seg (pt 0 0) (pt 1 1), seg (pt 1 1) (pt 0 1), seg (pt 0 1) (pt 0 0)]"
    by simp
  have dup: "\<not> (\<forall>j<length
     [seg (pt 0 0) (pt 1 0), seg (pt 1 0) (pt 1 1), seg (pt 1 1) (pt 0 0),
       seg (pt 0 0) (pt 1 1), seg (pt 1 1) (pt 0 1), seg (pt 0 1) (pt 0 0)].
       j \<noteq> 2 \<longrightarrow> \<not> Edge_eq
        ([seg (pt 0 0) (pt 1 0), seg (pt 1 0) (pt 1 1), seg (pt 1 1) (pt 0 0),
       seg (pt 0 0) (pt 1 1), seg (pt 1 1) (pt 0 1), seg (pt 0 1) (pt 0 0)] ! 2)
        ([seg (pt 0 0) (pt 1 0), seg (pt 1 0) (pt 1 1), seg (pt 1 1) (pt 0 0),
       seg (pt 0 0) (pt 1 1), seg (pt 1 1) (pt 0 1), seg (pt 0 1) (pt 0 0)] ! j))"
    by (simp add: Edge_eq_def Point_eq_def) (rule exI [of _ 3], simp)
  have th: "insertPoint (pt (1 / 2) (1 / 2))
     [tri (pt 0 0) (pt 1 0) (pt 1 1), tri (pt 0 0) (pt 1 1) (pt 0 1)] =
     [tri (pt 0 0) (pt 1 0) (pt (1 / 2) (1 / 2)), tri (pt 1 0) (pt 1 1) (pt (1 / 2) (1 / 2)),
      tri (pt 1 1) (pt 0 1) (pt (1 / 2) (1 / 2)), tri (pt 0 1) (pt 0 0) (pt (1 / 2) (1 / 2))]"
    using cavity_boundary_edges_unique
      [of "pt (1 / 2) (1 / 2)" "[tri (pt 0 0) (pt 1 0) (pt 1 1), tri (pt 0 0) (pt 1 1) (pt 0 1)]"
        "[tri (pt 0 0) (pt 1 0) (pt 1 1), tri (pt 0 0) (pt 1 1) (pt 0 1)]"
        "[seg (pt 0 0) (pt 1 0), seg (pt 1 0) (pt 1 1), seg (pt 1 1) (pt 0 0),
          seg (pt 0 0) (pt 1 1), seg (pt 1 1) (pt 0 1), seg (pt 0 1) (pt 0 0)]" "[]"]
      scan
    by (simp add: erase_remove_if_def Edge_eq_def Point_eq_def)
  have nu: "\<not> isUniqueFrom
     [seg (pt 0 0) (pt 1 0), seg (pt 1 0) (pt 1 1), seg (pt 1 1) (pt 0 0),
       seg (pt 0 0) (pt 1 1), seg (pt 1 1) (pt 0 1), seg (pt 0 1) (pt 0 0)] 2 0"
    using cavity_boundary_edges_unique
      [of "pt 0 0" "[]" "[]" "[]"
        "[seg (pt 0 0) (pt 1 0), seg (pt 1 0) (pt 1 1), seg (pt 1 1) (pt 0 0),
          seg (pt 0 0) (pt 1 1), seg (pt 1 1) (pt 0 1), seg (pt 0 1) (pt 0 0)]"]
      idx dup
    by blast
  show ?thesis
    using scan th nu by blast
qed



subsection \<open>The whole triangulation\<close>

text \<open>
  Claim C8. For the input \<open>(0, 0), (1, 0), (0, 1)\<close> the function returns exactly one
  triangle, and its vertices are exactly these three points.
\<close>

theorem scenario_A_one_triangle:
  "delaunayTriangulation [pt 0 0, pt 1 0, pt 0 1] = Inr [tri (pt 0 0) (pt 1 0) (pt 0 1)] \<and>
   (\<exists>t. delaunayTriangulation [pt 0 0, pt 1 0, pt 0 1] = Inr [t] \<and>
        {a t, b t, c t} = {pt 0 0, pt 1 0, pt 0 1})"
  using delaunay_three_points by simp

text \<open>
  Claim C1. Every vertex of every returned triangle is equal, coordinate by coordinate, to
  a point of the input list, and no vertex of a returned triangle equals a corner of the
  super-triangle.
\<close>

theorem output_vertices_are_input_points:
  assumes "delaunayTriangulation points = Inr ts" and "t \<in> set ts"
  shows "(\<exists>q\<in>set points. Point_eq (a t) q) \<and>
         (\<exists>q\<in>set points. Point_eq (b t) q) \<and>
         (\<exists>q\<in>set points. Point_eq (c t) q) \<and>
         (\<exists>s. superTriangle points = Inr s \<and>
           (\<forall>v\<in>{a t, b t, c t}. \<forall>w\<in>{a s, b s, c s}. \<not> Point_eq v w))"
proof -
  from delaunay_Inr [OF assms(1)] obtain s where
    s: "superTriangle points = Inr s"
    and ts: "ts = erase_remove_if (touchesSuper s) (insertAll points [s])"
    by blast
  let ?V = "{a s, b s, c s} \<union> set points"
  have "\<forall>u\<in>set (insertAll points [s]). a u \<in> ?V \<and> b u \<in> ?V \<and> c u \<in> ?V"
    by (rule insertAll_vertices) auto
  moreover from assms(2) ts have in_all: "t \<in> set (insertAll points [s])"
    and clear: "\<not> touchesSuper s t"
    by (auto simp: erase_remove_if_def)
  ultimately have verts: "a t \<in> ?V \<and> b t \<in> ?V \<and> c t \<in> ?V"
    by blast
  from clear have away: "\<forall>v\<in>{a t, b t, c t}. \<forall>w\<in>{a s, b s, c s}. \<not> Point_eq v w"
    by (auto simp: touchesSuper_def)
  then have "a t \<notin> {a s, b s, c s} \<and> b t \<notin> {a s, b s, c s} \<and> c t \<notin> {a s, b s, c s}"
    by (auto simp: Point_eq_iff)
  with verts have "a t \<in> set points \<and> b t \<in> set points \<and> c t \<in> set points"
    by blast
  then have "(\<exists>q\<in>set points. Point_eq (a t) q) \<and>
         (\<exists>q\<in>set points. Point_eq (b t) q) \<and>
         (\<exists>q\<in>set points. Point_eq (c t) q)"
    by (auto simp: Point_eq_iff)
  with s away show ?thesis by blast
qed

theorem output_vertices_are_input_points_witness:
  "delaunayTriangulation [pt 0 0, pt 1 0, pt 0 1] = Inr [tri (pt 0 0) (pt 1 0) (pt 0 1)] \<and>
   tri (pt 0 0) (pt 1 0) (pt 0 1) \<in> set [tri (pt 0 0) (pt 1 0) (pt 0 1)] \<and>
   (\<exists>q\<in>set [pt 0 0, pt 1 0, pt 0 1]. Point_eq (pt 0 0) q) \<and>
   (\<exists>q\<in>set [pt 0 0, pt 1 0, pt 0 1]. Point_eq (pt 1 0) q) \<and>
   (\<exists>q\<in>set [pt 0 0, pt 1 0, pt 0 1]. Point_eq (pt 0 1) q) \<and>
   (\<exists>s. superTriangle [pt 0 0, pt 1 0, pt 0 1] = Inr s \<and>
      (\<forall>v\<in>{pt 0 0, pt 1 0, pt 0 1}. \<forall>w\<in>{a s, b s, c s}. \<not> Point_eq v w))"
proof -
  have mem: "tri (pt 0 0) (pt 1 0) (pt 0 1) \<in> set [tri (pt 0 0) (pt 1 0) (pt 0 1)]"
    by simp
  show ?thesis
    using output_vertices_are_input_points [OF delaunay_three_points mem]
      delaunay_three_points mem
    by simp
qed

subsection \<open>The input vector\<close>

text \<open>
  Claim C9. The call leaves the caller's vector as it was: whenever the call returns, the
  vector holds the same points in the same order, and the triangles returned are those of
  \<open>delaunayTriangulation\<close>. For every non-empty input the call returns. (For the empty
  input the read of \<^verbatim>\<open>points[0]\<close> is undefined behaviour and there is no state after
  the call to speak of.)
\<close>

theorem input_points_not_mutated:
  "(delaunayTriangulation_call points = Inr (points', ts) \<longrightarrow>
      points' = points \<and> delaunayTriangulation points = Inr ts) \<and>
   (points \<noteq> [] \<longrightarrow> (\<exists>ts. delaunayTriangulation_call points = Inr (points, ts)))"
proof (intro conjI impI)
  assume "delaunayTriangulation_call points = Inr (points', ts)"
  then show "points' = points" "delaunayTriangulation points = Inr ts"
    by (auto simp: delaunay_call_eq split: sum.splits)
next
  assume "points \<noteq> []"
  then obtain s where "superTriangle points = Inr s"
    using superTriangle_total by blast
  then show "\<exists>ts. delaunayTriangulation_call points = Inr (points, ts)"
    by (simp add: delaunay_call_eq delaunayTriangulation_def)
qed

theorem input_points_not_mutated_witness:
  "delaunayTriangulation_call [pt 0 0, pt 1 0, pt 0 1] =
     Inr ([pt 0 0, pt 1 0, pt 0 1], [tri (pt 0 0) (pt 1 0) (pt 0 1)]) \<and>
   [pt 0 0, pt 1 0, pt 0 1] \<noteq> [] \<and>
   delaunayTriangulation [pt 0 0, pt 1 0, pt 0 1] = Inr [tri (pt 0 0) (pt 1 0) (pt 0 1)]"
  using input_points_not_mutated [of "[pt 0 0, pt 1 0, pt 0 1]" "[pt 0 0, pt 1 0, pt 0 1]"
      "[tri (pt 0 0) (pt 1 0) (pt 0 1)]"] call_three_points
  by simp

subsection \<open>The empty input\<close>

text \<open>
  Claim C5 says that the engine fails with \<open>InvalidInput\<close> on the empty input. The
  source has no such check: line 62 reads \<^verbatim>\<open>points[0]\<close> first.
\<close>

theorem empty_input_not_InvalidInput: "delaunayTriangulation [] \<noteq> Inl InvalidInput"
  by (simp add: delaunayTriangulation_def superTriangle_def computeBounds_def)

text \<open>
  Claim C5, amended. On the empty input the function reads \<^verbatim>\<open>points[0]\<close> out of
  bounds, and on no input does it fail with \<open>InvalidInput\<close>.
\<close>

theorem empty_input_out_of_bounds_read:
  "delaunayTriangulation [] = Inl OutOfBoundsRead \<and>
   (\<forall>points. delaunayTriangulation points \<noteq> Inl InvalidInput)"
proof -
  have "delaunayTriangulation points \<noteq> Inl InvalidInput" for points
    by (cases points)
      (simp_all add: delaunayTriangulation_def superTriangle_def computeBounds_def)
  then show ?thesis
    by (simp add: delaunayTriangulation_def superTriangle_def computeBounds_def)
qed

end
